theory Spec2Isabelle
  imports Main "HOL-Library.Sublist" "HOL-Library.Multiset"
begin

section \<open>Python values, exceptions and effects\<close>

text \<open>
  The three scripts of the repository (\<^verbatim>\<open>scrape_linkedin.py\<close>, \<^verbatim>\<open>scrape_monster.py\<close>,
  \<^verbatim>\<open>send_daily_emails.py\<close>) talk to three external services over HTTP: the Apify actor
  runner, the Supabase store and the Resend mail API. The services are parameters of the
  model: an environment of operations over an arbitrary world state \<open>'w\<close>. Every request
  either raises (an exception of \<^verbatim>\<open>requests\<close>, of the JSON decoding or of the subscripting of
  the decoded body) or returns the decoded answer, and every request made is written, with
  its outcome, to a trace, so that what the scripts ask of the services can be stated.

  A decoded JSON value; an element of a \<open>string\<close> stands for one character of a Python
  \<^verbatim>\<open>str\<close>. Numbers are restricted to integers.
\<close>

datatype json =
    JNull
  | JBool bool
  | JNum int
  | JStr string
  | JArr "json list"
  | JObj "(string \<times> json) list"

type_synonym pydict = "(string \<times> json) list"

datatype exn =
    ValueError string
  | KeyError string
  | TypeError
  | AttributeError
  | IndexError
  | RequestError

text \<open>
  What ends a call early: an exception (a subclass of \<^verbatim>\<open>Exception\<close>) or \<^verbatim>\<open>sys.exit\<close>, whose
  \<^verbatim>\<open>SystemExit\<close> is not an \<^verbatim>\<open>Exception\<close>.
\<close>

datatype signal = Exception exn | SystemExit int

text \<open>
  A program over the world \<open>'w\<close> with events \<open>'ev\<close>: it returns a value or raises, the
  events it produced, and the new world. \<open>bind\<close> sequences two programs; an exception of
  the first ends the sequence (nothing of the second runs).
\<close>

type_synonym ('a, 'ev, 'w) prog = "'w \<Rightarrow> (signal + 'a) \<times> 'ev list \<times> 'w"

definition ret :: "'a \<Rightarrow> ('a, 'ev, 'w) prog" where
  "ret x = (\<lambda>w. (Inr x, [], w))"

definition raise :: "exn \<Rightarrow> ('a, 'ev, 'w) prog" where
  "raise e = (\<lambda>w. (Inl (Exception e), [], w))"

definition sys_exit :: "int \<Rightarrow> ('a, 'ev, 'w) prog" where
  "sys_exit n = (\<lambda>w. (Inl (SystemExit n), [], w))"

definition emit :: "'ev \<Rightarrow> (unit, 'ev, 'w) prog" where
  "emit ev = (\<lambda>w. (Inr (), [ev], w))"

definition bind :: "('a, 'ev, 'w) prog \<Rightarrow> ('a \<Rightarrow> ('b, 'ev, 'w) prog) \<Rightarrow> ('b, 'ev, 'w) prog" where
  "bind m f = (\<lambda>w. case m w of
       (Inl e, tr, w') \<Rightarrow> (Inl e, tr, w')
     | (Inr x, tr, w') \<Rightarrow> (case f x w' of (r, tr', w'') \<Rightarrow> (r, tr @ tr', w'')))"

text \<open>A request to a service: the service answers or raises; the event records both.\<close>

definition request :: "('w \<Rightarrow> (exn + 'a) \<times> 'w) \<Rightarrow> (exn + 'a \<Rightarrow> 'ev) \<Rightarrow> ('a, 'ev, 'w) prog" where
  "request op ev = (\<lambda>w. case op w of
       (Inl e, w') \<Rightarrow> (Inl (Exception e), [ev (Inl e)], w')
     | (Inr x, w') \<Rightarrow> (Inr x, [ev (Inr x)], w'))"

text \<open>
  \<^verbatim>\<open>try: m except Exception as e: h(e)\<close>; a \<^verbatim>\<open>SystemExit\<close> passes through.
\<close>

definition try_except :: "('a, 'ev, 'w) prog \<Rightarrow> (exn \<Rightarrow> ('a, 'ev, 'w) prog) \<Rightarrow> ('a, 'ev, 'w) prog" where
  "try_except m h = (\<lambda>w. case m w of
       (Inl (Exception e), tr, w') \<Rightarrow> (case h e w' of (r, tr', w'') \<Rightarrow> (r, tr @ tr', w''))
     | (Inl (SystemExit n), tr, w') \<Rightarrow> (Inl (SystemExit n), tr, w')
     | (Inr x, tr, w') \<Rightarrow> (Inr x, tr, w'))"

definition lift :: "exn + 'a \<Rightarrow> ('a, 'ev, 'w) prog" where
  "lift r = (case r of Inl e \<Rightarrow> raise e | Inr x \<Rightarrow> ret x)"

text \<open>
  The exit code of the process: 0 when \<^verbatim>\<open>main\<close> returns, the argument of
  \<^verbatim>\<open>sys.exit\<close>, and 1 when an exception reaches the top level.
\<close>

fun exit_code :: "signal + 'a \<Rightarrow> int" where
  "exit_code (Inr _) = 0"
| "exit_code (Inl (SystemExit n)) = n"
| "exit_code (Inl (Exception e)) = 1"

text \<open>An environment variable: \<^verbatim>\<open>not X\<close> holds when it is unset or empty.\<close>

definition unset :: "string option \<Rightarrow> bool" where
  "unset v = (case v of None \<Rightarrow> True | Some s \<Rightarrow> s = [])"

record config =
  APIFY_API_TOKEN :: "string option"
  SUPABASE_URL :: "string option"
  SUPABASE_KEY :: "string option"
  RESEND_API_KEY :: "string option"

section \<open>The source adapter: \<^verbatim>\<open>run_apify_actor\<close>\<close>

text \<open>
  The record a job is stored as (\<^verbatim>\<open>db_job\<close> of \<^verbatim>\<open>save_to_supabase\<close>). Only
  \<open>external_id\<close> and \<open>source\<close> are strings by construction; the other fields hold
  whatever JSON value the raw listing had.
\<close>

record db_job =
  external_id :: string
  source :: string
  title :: json
  company :: json
  location :: json
  description :: json
  url :: json
  salary :: json
  search_title :: json

datatype event =
    Sleep nat
  | PostRun string int "exn + string \<times> string"
  | GetStatus string "exn + string"
  | GetDataset string "exn + json"
  | Upsert db_job "exn + int"
  | GetJobTitles "exn + string list"
  | RunWarning string
  | SaveWarning string

text \<open>
  The services the two scrapers use. \<open>post_run w title limit\<close> starts an actor run and
  gives the run id and the first status (\<^verbatim>\<open>run_data['data']['id']\<close>,
  \<^verbatim>\<open>run_data['data']['status']\<close>); it raises when the request, \<^verbatim>\<open>raise_for_status\<close> or
  the decoding raises. \<open>get_status\<close> and \<open>get_dataset\<close> are the two GET requests by run
  id, \<open>post_job\<close> the upsert request (its answer is the HTTP status code), and
  \<open>get_job_titles\<close> the query of the \<^verbatim>\<open>job_titles\<close> table. A status is the text of
  the status field; the scripts only compare it with \<^verbatim>\<open>RUNNING\<close>, \<^verbatim>\<open>READY\<close> and
  \<^verbatim>\<open>SUCCEEDED\<close>. Of the payload of a run only the title and the limit are kept.
\<close>

record 'w services =
  post_run :: "'w \<Rightarrow> string \<Rightarrow> int \<Rightarrow> (exn + string \<times> string) \<times> 'w"
  get_status :: "'w \<Rightarrow> string \<Rightarrow> (exn + string) \<times> 'w"
  get_dataset :: "'w \<Rightarrow> string \<Rightarrow> (exn + json) \<times> 'w"
  post_job :: "'w \<Rightarrow> db_job \<Rightarrow> (exn + int) \<times> 'w"
  get_job_titles :: "'w \<Rightarrow> (exn + string list) \<times> 'w"

definition in_progress :: "string \<Rightarrow> bool" where
  "in_progress status = (status = ''RUNNING'' \<or> status = ''READY'')"

definition max_wait :: nat where
  "max_wait = 300"

text \<open>
  \<^verbatim>\<open>while status in ['RUNNING', 'READY'] and waited < max_wait:\<close>
  \<^verbatim>\<open>    time.sleep(5); waited += 5\<close>
  \<^verbatim>\<open>    status = requests.get(status_url).json()['data']['status']\<close>
\<close>

function poll_loop :: "'w services \<Rightarrow> string \<Rightarrow> string \<Rightarrow> nat \<Rightarrow> (string, event, 'w) prog" where
  "poll_loop sv run_id status waited =
     (if in_progress status \<and> waited < max_wait then
        bind (emit (Sleep 5)) (\<lambda>_.
        bind (request (\<lambda>w. get_status sv w run_id) (GetStatus run_id)) (\<lambda>status'.
        poll_loop sv run_id status' (waited + 5)))
      else ret status)"
  by pat_completeness auto
termination
  by (relation "measure (\<lambda>(sv, run_id, status, waited). max_wait - waited)") auto

declare poll_loop.simps [simp del]

text \<open>
  \<^verbatim>\<open>for job in jobs: job['search_title'] = title\<close> on the decoded dataset: a list is
  iterated by its elements, each of which must be a dict; a dict is iterated by its keys
  and a string by its characters, on which the item assignment raises; anything else is
  not iterable.
\<close>

fun set_item :: "pydict \<Rightarrow> string \<Rightarrow> json \<Rightarrow> pydict" where
  "set_item [] k v = [(k, v)]"
| "set_item ((k', v') # d) k v = (if k' = k then (k, v) # d else (k', v') # set_item d k v)"

fun tag_job :: "string \<Rightarrow> json \<Rightarrow> exn + pydict" where
  "tag_job t (JObj d) = Inr (set_item d ''search_title'' (JStr t))"
| "tag_job t _ = Inl TypeError"

fun tag_items :: "string \<Rightarrow> json list \<Rightarrow> exn + pydict list" where
  "tag_items t [] = Inr []"
| "tag_items t (x # xs) =
     (case tag_job t x of
        Inl e \<Rightarrow> Inl e
      | Inr d \<Rightarrow> (case tag_items t xs of Inl e \<Rightarrow> Inl e | Inr ds \<Rightarrow> Inr (d # ds)))"

fun tag_jobs :: "string \<Rightarrow> json \<Rightarrow> exn + pydict list" where
  "tag_jobs t (JArr xs) = tag_items t xs"
| "tag_jobs t (JObj d) = (if d = [] then Inr [] else Inl TypeError)"
| "tag_jobs t (JStr s) = (if s = [] then Inr [] else Inl TypeError)"
| "tag_jobs t _ = Inl TypeError"

text \<open>
  The body of \<^verbatim>\<open>for title in job_titles\<close>: start the run, poll, and on
  \<^verbatim>\<open>SUCCEEDED\<close> fetch the dataset; it returns the listings to append to \<^verbatim>\<open>results\<close>
  (none after the \<^verbatim>\<open>continue\<close>).
\<close>

definition scrape_title :: "'w services \<Rightarrow> int \<Rightarrow> string \<Rightarrow> (pydict list, event, 'w) prog" where
  "scrape_title sv limit_per_title t =
     bind (request (\<lambda>w. post_run sv w t limit_per_title) (PostRun t limit_per_title)) (\<lambda>(run_id, status).
     bind (poll_loop sv run_id status 0) (\<lambda>status.
     if status \<noteq> ''SUCCEEDED'' then
       bind (emit (RunWarning status)) (\<lambda>_. ret [])
     else
       bind (request (\<lambda>w. get_dataset sv w run_id) (GetDataset run_id)) (\<lambda>jobs.
       lift (tag_jobs t jobs))))"

fun scrape_titles :: "'w services \<Rightarrow> int \<Rightarrow> string list \<Rightarrow> pydict list \<Rightarrow> (pydict list, event, 'w) prog" where
  "scrape_titles sv limit_per_title [] results = ret results"
| "scrape_titles sv limit_per_title (t # ts) results =
     bind (scrape_title sv limit_per_title t) (\<lambda>jobs.
     scrape_titles sv limit_per_title ts (results @ jobs))"

definition run_apify_actor :: "config \<Rightarrow> 'w services \<Rightarrow> string list \<Rightarrow> int \<Rightarrow> (pydict list, event, 'w) prog" where
  "run_apify_actor cfg sv job_titles limit_per_title =
     (if unset (APIFY_API_TOKEN cfg) then raise (ValueError ''APIFY_API_TOKEN environment variable is not set'')
      else scrape_titles sv limit_per_title job_titles [])"

section \<open>The normalizer: the \<^verbatim>\<open>db_job\<close> of \<^verbatim>\<open>save_to_supabase\<close>\<close>

text \<open>\<^verbatim>\<open>job.get(k, default)\<close> and \<^verbatim>\<open>job.get(k)\<close>: the value of a present key, whatever it is.\<close>

definition get_or :: "pydict \<Rightarrow> string \<Rightarrow> json \<Rightarrow> json" where
  "get_or job k dflt = (case map_of job k of None \<Rightarrow> dflt | Some v \<Rightarrow> v)"

definition dict_get :: "pydict \<Rightarrow> string \<Rightarrow> json" where
  "dict_get job k = get_or job k JNull"

text \<open>Python truth of a value, as \<^verbatim>\<open>or\<close> tests it.\<close>

fun truthy :: "json \<Rightarrow> bool" where
  "truthy JNull = False"
| "truthy (JBool b) = b"
| "truthy (JNum n) = (n \<noteq> 0)"
| "truthy (JStr s) = (s \<noteq> [])"
| "truthy (JArr xs) = (xs \<noteq> [])"
| "truthy (JObj d) = (d \<noteq> [])"

text \<open>
  \<^verbatim>\<open>str(v)\<close>, as an f-string formats a value. The text of a list or a dict is left to the
  parameter \<open>repr\<close>.
\<close>

function show_nat :: "nat \<Rightarrow> string" where
  "show_nat n =
     (if n < 10 then [''0123456789'' ! n]
      else show_nat (n div 10) @ [''0123456789'' ! (n mod 10)])"
  by pat_completeness auto
termination
  by (relation "measure id") auto

declare show_nat.simps [simp del]

definition show_int :: "int \<Rightarrow> string" where
  "show_int i = (if i < 0 then CHR ''-'' # show_nat (nat (- i)) else show_nat (nat i))"

fun py_str :: "(json \<Rightarrow> string) \<Rightarrow> json \<Rightarrow> string" where
  "py_str repr JNull = ''None''"
| "py_str repr (JBool b) = (if b then ''True'' else ''False'')"
| "py_str repr (JNum n) = show_int n"
| "py_str repr (JStr s) = s"
| "py_str repr v = repr v"

text \<open>\<^verbatim>\<open>s.split(c)\<close> for a one-character separator, and \<^verbatim>\<open>xs[-1]\<close>.\<close>

fun split_on :: "char \<Rightarrow> string \<Rightarrow> string list" where
  "split_on c [] = [[]]"
| "split_on c (x # xs) =
     (if x = c then [] # split_on c xs
      else (case split_on c xs of [] \<Rightarrow> [[x]] | w # ws \<Rightarrow> (x # w) # ws))"

definition py_last :: "'a list \<Rightarrow> exn + 'a" where
  "py_last xs = (if xs = [] then Inl IndexError else Inr (last xs))"

text \<open>
  \<^verbatim>\<open>job.get('jobId') or job.get('id') or job.get('jobUrl', '').split('/')[-1]\<close>
  (\<^verbatim>\<open>scrape_monster.py\<close>): \<^verbatim>\<open>or\<close> gives its first truthy operand and evaluates the next one
  only when there is none; only a \<^verbatim>\<open>str\<close> has \<^verbatim>\<open>split\<close>.
\<close>

definition monster_job_id :: "pydict \<Rightarrow> exn + json" where
  "monster_job_id job =
     (if truthy (dict_get job ''jobId'') then Inr (dict_get job ''jobId'')
      else if truthy (dict_get job ''id'') then Inr (dict_get job ''id'')
      else (case get_or job ''jobUrl'' (JStr []) of
              JStr u \<Rightarrow> (case py_last (split_on CHR ''/'' u) of Inl e \<Rightarrow> Inl e | Inr seg \<Rightarrow> Inr (JStr seg))
            | _ \<Rightarrow> Inl AttributeError))"

text \<open>
  \<^verbatim>\<open>(job.get('description', '') or '')[:5000]\<close>: a string and a list can be sliced; the
  slice of a number, of \<^verbatim>\<open>True\<close> or of a dict raises (for the dict a \<^verbatim>\<open>KeyError\<close> from
  Python 3.12 on, a \<^verbatim>\<open>TypeError\<close> before).
\<close>

fun py_slice_to :: "nat \<Rightarrow> json \<Rightarrow> exn + json" where
  "py_slice_to n (JStr s) = Inr (JStr (take n s))"
| "py_slice_to n (JArr xs) = Inr (JArr (take n xs))"
| "py_slice_to n _ = Inl TypeError"

definition job_description :: "pydict \<Rightarrow> exn + json" where
  "job_description job =
     (let d = get_or job ''description'' (JStr [])
      in py_slice_to 5000 (if truthy d then d else JStr []))"

datatype source_name = Linkedin | Monster

definition linkedin_db_job :: "(json \<Rightarrow> string) \<Rightarrow> pydict \<Rightarrow> exn + db_job" where
  "linkedin_db_job repr job =
     (case job_description job of
        Inl e \<Rightarrow> Inl e
      | Inr descr \<Rightarrow> Inr
         \<lparr> external_id = ''linkedin_'' @ py_str repr (get_or job ''jobId'' (get_or job ''id'' (JStr []))),
           source = ''linkedin'',
           title = get_or job ''title'' (JStr []),
           company = get_or job ''company'' (JStr []),
           location = get_or job ''location'' (JStr []),
           description = descr,
           url = get_or job ''jobUrl'' (get_or job ''url'' (JStr [])),
           salary = dict_get job ''salary'',
           search_title = get_or job ''search_title'' (JStr []) \<rparr>)"

definition monster_db_job :: "(json \<Rightarrow> string) \<Rightarrow> pydict \<Rightarrow> exn + db_job" where
  "monster_db_job repr job =
     (case monster_job_id job of
        Inl e \<Rightarrow> Inl e
      | Inr job_id \<Rightarrow>
     (case job_description job of
        Inl e \<Rightarrow> Inl e
      | Inr descr \<Rightarrow> Inr
         \<lparr> external_id = ''monster_'' @ py_str repr job_id,
           source = ''monster'',
           title = get_or job ''jobTitle'' (get_or job ''title'' (JStr [])),
           company = get_or job ''companyName'' (get_or job ''company'' (JStr [])),
           location = get_or job ''location'' (JStr []),
           description = descr,
           url = get_or job ''jobUrl'' (get_or job ''url'' (JStr [])),
           salary = dict_get job ''salary'',
           search_title = get_or job ''search_title'' (JStr []) \<rparr>))"

fun transform :: "(json \<Rightarrow> string) \<Rightarrow> source_name \<Rightarrow> pydict \<Rightarrow> exn + db_job" where
  "transform repr Linkedin job = linkedin_db_job repr job"
| "transform repr Monster job = monster_db_job repr job"

section \<open>The store gateway: \<^verbatim>\<open>save_to_supabase\<close>\<close>

text \<open>
  The loop of \<^verbatim>\<open>save_to_supabase\<close>, the same in both scripts but for the \<^verbatim>\<open>db_job\<close>:
  one POST per job; 200 and 201 are counted, 409 is passed over, anything else is
  printed as a warning.
\<close>

fun save_jobs :: "(json \<Rightarrow> string) \<Rightarrow> source_name \<Rightarrow> 'w services \<Rightarrow> pydict list \<Rightarrow> int \<Rightarrow> (int, event, 'w) prog" where
  "save_jobs repr src sv [] saved_count = ret saved_count"
| "save_jobs repr src sv (job # jobs) saved_count =
     bind (lift (transform repr src job)) (\<lambda>db_job.
     bind (request (\<lambda>w. post_job sv w db_job) (Upsert db_job)) (\<lambda>status_code.
     if status_code = 200 \<or> status_code = 201 then
       save_jobs repr src sv jobs (saved_count + 1)
     else if status_code = 409 then
       save_jobs repr src sv jobs saved_count
     else
       bind (emit (SaveWarning (external_id db_job))) (\<lambda>_.
       save_jobs repr src sv jobs saved_count)))"

definition save_to_supabase :: "(json \<Rightarrow> string) \<Rightarrow> source_name \<Rightarrow> config \<Rightarrow> 'w services \<Rightarrow> pydict list \<Rightarrow> (int, event, 'w) prog" where
  "save_to_supabase repr src cfg sv jobs =
     (if unset (SUPABASE_URL cfg) \<or> unset (SUPABASE_KEY cfg) then
        raise (ValueError ''Supabase environment variables not set'')
      else save_jobs repr src sv jobs 0)"

section \<open>The ingestion scripts: \<^verbatim>\<open>main\<close>\<close>

text \<open>
  \<^verbatim>\<open>list(set(t['title'] for t in titles_data))\<close>: the distinct titles, in the iteration
  order of the set, which is the parameter \<open>order\<close> (some rearrangement of its argument).
\<close>

definition list_of_set :: "(string list \<Rightarrow> string list) \<Rightarrow> string list \<Rightarrow> string list" where
  "list_of_set order xs = order (remdups xs)"

text \<open>
  \<open>argv_titles\<close> are the positional arguments (\<^verbatim>\<open>sys.argv[1:]\<close>, \<^verbatim>\<open>args.job_titles\<close>); when
  there are none the titles come from the store.
\<close>

definition resolve_titles :: "(string list \<Rightarrow> string list) \<Rightarrow> config \<Rightarrow> 'w services \<Rightarrow> string list \<Rightarrow> (string list, event, 'w) prog" where
  "resolve_titles order cfg sv argv_titles =
     (if argv_titles \<noteq> [] then ret argv_titles
      else if unset (SUPABASE_URL cfg) \<or> unset (SUPABASE_KEY cfg) then sys_exit 1
      else bind (request (get_job_titles sv) GetJobTitles) (\<lambda>titles_data.
           ret (list_of_set order titles_data)))"

definition scraper_main :: "(string list \<Rightarrow> string list) \<Rightarrow> (json \<Rightarrow> string) \<Rightarrow> source_name \<Rightarrow> config \<Rightarrow> 'w services \<Rightarrow> string list \<Rightarrow> int \<Rightarrow> (unit, event, 'w) prog" where
  "scraper_main order repr src cfg sv argv_titles limit =
     bind (resolve_titles order cfg sv argv_titles) (\<lambda>job_titles.
     if job_titles = [] then ret ()
     else
       bind (try_except (run_apify_actor cfg sv job_titles limit) (\<lambda>e. sys_exit 1)) (\<lambda>jobs.
       if jobs \<noteq> [] then
         bind (try_except (save_to_supabase repr src cfg sv jobs) (\<lambda>e. sys_exit 1)) (\<lambda>saved_count.
         ret ())
       else ret ()))"

text \<open>\<^verbatim>\<open>scrape_linkedin.py\<close> has no limit option: \<^verbatim>\<open>limit_per_title\<close> keeps its default.\<close>

definition linkedin_main :: "(string list \<Rightarrow> string list) \<Rightarrow> (json \<Rightarrow> string) \<Rightarrow> config \<Rightarrow> 'w services \<Rightarrow> string list \<Rightarrow> (unit, event, 'w) prog" where
  "linkedin_main order repr cfg sv argv_titles = scraper_main order repr Linkedin cfg sv argv_titles 25"

definition monster_main :: "(string list \<Rightarrow> string list) \<Rightarrow> (json \<Rightarrow> string) \<Rightarrow> config \<Rightarrow> 'w services \<Rightarrow> string list \<Rightarrow> int \<Rightarrow> (unit, event, 'w) prog" where
  "monster_main order repr cfg sv job_titles limit = scraper_main order repr Monster cfg sv job_titles limit"

section \<open>The digest script: \<^verbatim>\<open>send_daily_emails.py\<close>\<close>

text \<open>
  The rows the digest script reads: a subscriber (the columns the script selects from
  \<^verbatim>\<open>profiles\<close>) and a stored job (\<^verbatim>\<open>scraped_at\<close> is the store's own timestamp).
\<close>

record user =
  user_id :: string
  email :: string
  unsubscribe_token :: string

record job_row =
  job_id :: string
  job_title :: string
  job_url :: string
  job_source :: string
  job_search_title :: string
  scraped_at :: int

text \<open>The two documents: \<^verbatim>\<open>generate_jobs_email_html\<close> and \<^verbatim>\<open>generate_no_jobs_email_html\<close>.\<close>

datatype mail =
    JobsMail "job_row list" string
  | NoJobsMail string

datatype digest_event =
    GetUsers "exn + user list"
  | GetTitles string "exn + string list"
  | GetSent string "exn + string list"
  | GetJobs "string list" nat "exn + job_row list"
  | SendEmail string mail "exn + int"
  | LogWrite string string "exn + unit"

text \<open>
  The services of the digest script: four queries of the store (a query raises when the
  request, the decoding or the subscripting of a row raises), the POST to the mail API
  (its answer is the HTTP status code) and the POST of one \<^verbatim>\<open>email_logs\<close> row (its
  answer is not looked at). \<open>get_jobs w titles limit\<close> stands for the request
  \<^verbatim>\<open>jobs?search_title=in.("t1","t2")&order=scraped_at.desc&limit=20\<close>, whose URL the script
  builds by joining the quoted titles; the rows come back with the columns of the table,
  so that rendering the mail from them does not raise.
\<close>

record 'w digest_services =
  get_users :: "'w \<Rightarrow> (exn + user list) \<times> 'w"
  get_titles :: "'w \<Rightarrow> string \<Rightarrow> (exn + string list) \<times> 'w"
  get_sent :: "'w \<Rightarrow> string \<Rightarrow> (exn + string list) \<times> 'w"
  get_jobs :: "'w \<Rightarrow> string list \<Rightarrow> nat \<Rightarrow> (exn + job_row list) \<times> 'w"
  post_email :: "'w \<Rightarrow> string \<Rightarrow> mail \<Rightarrow> (exn + int) \<times> 'w"
  post_log :: "'w \<Rightarrow> string \<Rightarrow> string \<Rightarrow> (exn + unit) \<times> 'w"

definition send_email :: "config \<Rightarrow> 'w digest_services \<Rightarrow> string \<Rightarrow> mail \<Rightarrow> (bool, digest_event, 'w) prog" where
  "send_email cfg sv to html =
     (if unset (RESEND_API_KEY cfg) then
        raise (ValueError ''RESEND_API_KEY environment variable is not set'')
      else bind (request (\<lambda>w. post_email sv w to html) (SendEmail to html)) (\<lambda>status_code.
           ret (status_code = 200)))"

text \<open>\<^verbatim>\<open>[j for j in all_jobs if j['id'] not in sent_job_ids]\<close>\<close>

definition new_jobs_of :: "job_row list \<Rightarrow> string list \<Rightarrow> job_row list" where
  "new_jobs_of all_jobs sent_job_ids = filter (\<lambda>j. job_id j \<notin> set sent_job_ids) all_jobs"

text \<open>\<^verbatim>\<open>for job in new_jobs: requests.post(.../email_logs, json={user_id, job_id})\<close>\<close>

fun log_sent_jobs :: "'w digest_services \<Rightarrow> string \<Rightarrow> job_row list \<Rightarrow> (unit, digest_event, 'w) prog" where
  "log_sent_jobs sv uid [] = ret ()"
| "log_sent_jobs sv uid (job # jobs) =
     bind (request (\<lambda>w. post_log sv w uid (job_id job)) (LogWrite uid (job_id job))) (\<lambda>_.
     log_sent_jobs sv uid jobs)"

datatype user_result =
    NoTitles
  | SentJobs
  | SentNoJobs
  | SendFailed
  | Raised exn

text \<open>The body of the \<^verbatim>\<open>try\<close> in the loop over the subscribers.\<close>

definition process_user :: "config \<Rightarrow> 'w digest_services \<Rightarrow> user \<Rightarrow> (user_result, digest_event, 'w) prog" where
  "process_user cfg sv u =
     bind (request (\<lambda>w. get_titles sv w (user_id u)) (GetTitles (user_id u))) (\<lambda>titles.
     if titles = [] then ret NoTitles
     else
       bind (request (\<lambda>w. get_sent sv w (user_id u)) (GetSent (user_id u))) (\<lambda>sent_job_ids.
       bind (request (\<lambda>w. get_jobs sv w titles 20) (GetJobs titles 20)) (\<lambda>all_jobs.
       let new_jobs = new_jobs_of all_jobs sent_job_ids in
       if new_jobs \<noteq> [] then
         bind (send_email cfg sv (email u) (JobsMail new_jobs (unsubscribe_token u))) (\<lambda>ok.
         if ok then bind (log_sent_jobs sv (user_id u) new_jobs) (\<lambda>_. ret SentJobs)
         else ret SendFailed)
       else
         bind (send_email cfg sv (email u) (NoJobsMail (unsubscribe_token u))) (\<lambda>ok.
         if ok then ret SentNoJobs else ret SendFailed))))"

datatype failure = FailedToSend | Error exn

record summary =
  emails_sent :: int
  no_jobs_emails :: int
  errors :: "(string \<times> failure) list"

fun tally :: "user \<Rightarrow> user_result \<Rightarrow> summary \<Rightarrow> summary" where
  "tally u NoTitles s = s"
| "tally u SentJobs s = s\<lparr>emails_sent := emails_sent s + 1\<rparr>"
| "tally u SentNoJobs s = s\<lparr>no_jobs_emails := no_jobs_emails s + 1\<rparr>"
| "tally u SendFailed s = s\<lparr>errors := errors s @ [(email u, FailedToSend)]\<rparr>"
| "tally u (Raised e) s = s\<lparr>errors := errors s @ [(email u, Error e)]\<rparr>"

text \<open>\<^verbatim>\<open>for user in users: try: ... except Exception as e: errors.append(...)\<close>\<close>

fun process_users :: "config \<Rightarrow> 'w digest_services \<Rightarrow> user list \<Rightarrow> summary \<Rightarrow> (summary, digest_event, 'w) prog" where
  "process_users cfg sv [] s = ret s"
| "process_users cfg sv (u # us) s =
     bind (try_except (process_user cfg sv u) (\<lambda>e. ret (Raised e))) (\<lambda>r.
     process_users cfg sv us (tally u r s))"

definition digest_main :: "config \<Rightarrow> 'w digest_services \<Rightarrow> (summary, digest_event, 'w) prog" where
  "digest_main cfg sv =
     (if unset (SUPABASE_URL cfg) \<or> unset (SUPABASE_KEY cfg) then sys_exit 1
      else bind (request (get_users sv) GetUsers) (\<lambda>users.
           process_users cfg sv users \<lparr>emails_sent = 0, no_jobs_emails = 0, errors = []\<rparr>))"

section \<open>The store and the mail API, as the specification describes them\<close>

text \<open>
  Modelled from the spec: the query \<^verbatim>\<open>fetch_recent_matching_jobs\<close> of the external store
  (\<^verbatim>\<open>search_title=in.(...)&order=scraped_at.desc&limit=N\<close>): the jobs whose search title
  is one of the titles, most recently scraped first, at most \<open>limit\<close> of them.
\<close>

definition fetch_recent_matching_jobs :: "string list \<Rightarrow> nat \<Rightarrow> job_row list \<Rightarrow> job_row list" where
  "fetch_recent_matching_jobs titles limit table =
     take limit (sort_key (\<lambda>j. - scraped_at j) (filter (\<lambda>j. job_search_title j \<in> set titles) table))"

text \<open>
  Modelled from the spec: the external store as four tables, and the mail API as the list
  of its answers to the coming requests (200 once the list is used up).
\<close>

record store =
  profiles_table :: "user list"
  job_titles_table :: "(string \<times> string) list"
  jobs_table :: "job_row list"
  email_logs_table :: "(string \<times> string) list"
  mail_answers :: "(exn + int) list"

definition store_services :: "store digest_services" where
  "store_services =
     \<lparr> get_users = (\<lambda>s. (Inr (profiles_table s), s)),
       get_titles = (\<lambda>s uid. (Inr (map snd (filter (\<lambda>r. fst r = uid) (job_titles_table s))), s)),
       get_sent = (\<lambda>s uid. (Inr (map snd (filter (\<lambda>r. fst r = uid) (email_logs_table s))), s)),
       get_jobs = (\<lambda>s titles limit. (Inr (fetch_recent_matching_jobs titles limit (jobs_table s)), s)),
       post_email = (\<lambda>s to html.
          (case mail_answers s of [] \<Rightarrow> (Inr 200, s) | a # as \<Rightarrow> (a, s\<lparr>mail_answers := as\<rparr>))),
       post_log = (\<lambda>s uid jid. (Inr (), s\<lparr>email_logs_table := email_logs_table s @ [(uid, jid)]\<rparr>)) \<rparr>"

section \<open>The digest, as the specification describes it\<close>

text \<open>
  Modelled from the spec: \<^verbatim>\<open>build_digest(subscriber)\<close> on the store above: the subscriber's
  title preferences, the up to 20 most recent matching jobs, minus the jobs whose ids are
  in the subscriber's email log, in the order fetched.
\<close>

definition preferences :: "store \<Rightarrow> user \<Rightarrow> string list" where
  "preferences s u = map snd (filter (\<lambda>r. fst r = user_id u) (job_titles_table s))"

definition already_sent :: "store \<Rightarrow> user \<Rightarrow> string list" where
  "already_sent s u = map snd (filter (\<lambda>r. fst r = user_id u) (email_logs_table s))"

definition build_digest :: "store \<Rightarrow> user \<Rightarrow> job_row list" where
  "build_digest s u =
     filter (\<lambda>j. job_id j \<notin> set (already_sent s u))
       (fetch_recent_matching_jobs (preferences s u) 20 (jobs_table s))"

section \<open>Reading a trace\<close>

fun is_poll :: "event \<Rightarrow> bool" where
  "is_poll (GetStatus _ _) = True"
| "is_poll _ = False"

fun is_retrieval :: "event \<Rightarrow> bool" where
  "is_retrieval (GetDataset _ _) = True"
| "is_retrieval _ = False"

fun slept :: "event \<Rightarrow> nat" where
  "slept (Sleep n) = n"
| "slept _ = 0"

text \<open>One poll cycle that was answered with the status \<open>s\<close>.\<close>

definition poll_cycle :: "string \<Rightarrow> string \<Rightarrow> event list" where
  "poll_cycle run_id s = [Sleep 5, GetStatus run_id (Inr s)]"

text \<open>The titles submitted, the upsert requests answered, and the warnings of the save loop.\<close>

fun submitted :: "event list \<Rightarrow> string list" where
  "submitted [] = []"
| "submitted (PostRun t _ _ # tr) = t # submitted tr"
| "submitted (_ # tr) = submitted tr"

fun upserts :: "event list \<Rightarrow> (db_job \<times> int) list" where
  "upserts [] = []"
| "upserts (Upsert j (Inr c) # tr) = (j, c) # upserts tr"
| "upserts (_ # tr) = upserts tr"

fun save_warnings :: "event list \<Rightarrow> string list" where
  "save_warnings [] = []"
| "save_warnings (SaveWarning x # tr) = x # save_warnings tr"
| "save_warnings (_ # tr) = save_warnings tr"

text \<open>The exception a request ended with, if it did.\<close>

fun raised :: "event \<Rightarrow> exn option" where
  "raised (PostRun _ _ (Inl e)) = Some e"
| "raised (GetStatus _ (Inl e)) = Some e"
| "raised (GetDataset _ (Inl e)) = Some e"
| "raised (Upsert _ (Inl e)) = Some e"
| "raised (GetJobTitles (Inl e)) = Some e"
| "raised _ = None"

text \<open>The log rows posted, the mails posted and the users whose titles were asked for.\<close>

fun log_writes :: "digest_event list \<Rightarrow> (string \<times> string) list" where
  "log_writes [] = []"
| "log_writes (LogWrite uid jid _ # tr) = (uid, jid) # log_writes tr"
| "log_writes (_ # tr) = log_writes tr"

fun mails :: "digest_event list \<Rightarrow> (string \<times> mail \<times> (exn + int)) list" where
  "mails [] = []"
| "mails (SendEmail to html r # tr) = (to, html, r) # mails tr"
| "mails (_ # tr) = mails tr"

fun job_fetches :: "digest_event list \<Rightarrow> nat" where
  "job_fetches [] = 0"
| "job_fetches (GetJobs _ _ _ # tr) = Suc (job_fetches tr)"
| "job_fetches (_ # tr) = job_fetches tr"

fun users_begun :: "digest_event list \<Rightarrow> string list" where
  "users_begun [] = []"
| "users_begun (GetTitles uid _ # tr) = uid # users_begun tr"
| "users_begun (_ # tr) = users_begun tr"

text \<open>
  No request of the trace raised, or the last one did, nothing followed it, and its
  exception is the result.
\<close>

definition failure_last :: "signal + 'a \<Rightarrow> event list \<Rightarrow> bool" where
  "failure_last r tr =
     ((\<forall>ev\<in>set tr. raised ev = None)
      \<or> (\<exists>pre ev e. tr = pre @ [ev] \<and> (\<forall>ev'\<in>set pre. raised ev' = None)
            \<and> raised ev = Some e \<and> r = Inl (Exception e)))"

text \<open>The same of every run of a program.\<close>

definition stops :: "('a, event, 'w) prog \<Rightarrow> bool" where
  "stops m = (\<forall>w r tr w'. m w = (r, tr, w') \<longrightarrow> failure_last r tr)"

text \<open>A program that starts no actor run.\<close>

definition submits_none :: "('a, event, 'w) prog \<Rightarrow> bool" where
  "submits_none m = (\<forall>w r tr w'. m w = (r, tr, w') \<longrightarrow> submitted tr = [])"

text \<open>A program that never ends in \<^verbatim>\<open>SystemExit\<close>.\<close>

definition never_exits :: "('a, 'ev, 'w) prog \<Rightarrow> bool" where
  "never_exits m = (\<forall>w r tr w' n. m w = (r, tr, w') \<longrightarrow> r \<noteq> Inl (SystemExit n))"

section \<open>Example services and listings\<close>

text \<open>An actor runner whose runs never leave the in-progress statuses.\<close>

definition busy_services :: "unit services" where
  "busy_services =
     \<lparr> post_run = (\<lambda>w t l. (Inr (''run-1'', ''READY''), w)),
       get_status = (\<lambda>w r. (Inr ''RUNNING'', w)),
       get_dataset = (\<lambda>w r. (Inr (JArr []), w)),
       post_job = (\<lambda>w j. (Inr 201, w)),
       get_job_titles = (\<lambda>w. (Inr [], w)) \<rparr>"

text \<open>A store that answers the upsert requests with the status codes of a list, then 409.\<close>

definition scripted_store :: "int list services" where
  "scripted_store =
     \<lparr> post_run = (\<lambda>w t l. (Inr (''run-'' @ t, ''SUCCEEDED''), w)),
       get_status = (\<lambda>w r. (Inr ''SUCCEEDED'', w)),
       get_dataset = (\<lambda>w r. (Inr (JArr []), w)),
       post_job = (\<lambda>w j. (case w of [] \<Rightarrow> (Inr 409, []) | c # cs \<Rightarrow> (Inr c, cs))),
       get_job_titles = (\<lambda>w. (Inr [''Data Engineer'', ''Nurse'', ''Data Engineer''], w)) \<rparr>"

definition configured :: config where
  "configured =
     \<lparr> APIFY_API_TOKEN = Some ''token'', SUPABASE_URL = Some ''https://store.example'',
       SUPABASE_KEY = Some ''key'', RESEND_API_KEY = Some ''mail-key'' \<rparr>"

definition three_listings :: "pydict list" where
  "three_listings =
     [ [(''jobId'', JStr ''A1''), (''title'', JStr ''X''), (''company'', JStr ''Acme'')],
       [(''jobId'', JStr ''A2''), (''title'', JStr ''Y''), (''company'', JStr ''Acme'')],
       [(''jobId'', JStr ''A3''), (''title'', JStr ''Z''), (''company'', JStr ''Acme'')] ]"



definition monster_url_listing :: pydict where
  "monster_url_listing =
     [(''jobTitle'', JStr ''Nurse''), (''jobUrl'', JStr ''https://www.monster.com/job-openings/nurse/abc123'')]"

definition linkedin_url_listing :: pydict where
  "linkedin_url_listing =
     [(''title'', JStr ''Nurse''), (''jobUrl'', JStr ''https://www.linkedin.com/jobs/view/3791'')]"


section \<open>An example store\<close>

definition alice :: user where
  "alice = \<lparr> user_id = ''u1'', email = ''alice@example.org'', unsubscribe_token = ''t1'' \<rparr>"

definition bob :: user where
  "bob = \<lparr> user_id = ''u2'', email = ''bob@example.org'', unsubscribe_token = ''t2'' \<rparr>"

definition stored_job :: "string \<Rightarrow> string \<Rightarrow> int \<Rightarrow> job_row" where
  "stored_job i t at =
     \<lparr> job_id = i, job_title = ''Engineer'', job_url = ''https://jobs.example/'' @ i,
       job_source = ''linkedin'', job_search_title = t, scraped_at = at \<rparr>"

text \<open>
  Alice follows one title and has been sent the jobs J1 and J2; Bob follows none. The
  mail API will answer the next request with 500.
\<close>

definition example_store :: store where
  "example_store =
     \<lparr> profiles_table = [bob, alice],
       job_titles_table = [(''u1'', ''Data Engineer'')],
       jobs_table = [stored_job ''J1'' ''Data Engineer'' 10, stored_job ''J2'' ''Data Engineer'' 20,
                     stored_job ''J3'' ''Data Engineer'' 30, stored_job ''J4'' ''Nurse'' 40],
       email_logs_table = [(''u1'', ''J1''), (''u1'', ''J2'')],
       mail_answers = [Inr 500] \<rparr>"

text \<open>Nothing is configured.\<close>

definition unconfigured :: config where
  "unconfigured =
     \<lparr> APIFY_API_TOKEN = None, SUPABASE_URL = None, SUPABASE_KEY = None, RESEND_API_KEY = None \<rparr>"

text \<open>
  Services with the subscribers Bob and Alice whose title query raises for Bob and which
  answer everything else.
\<close>

definition moody_services :: "unit digest_services" where
  "moody_services =
     \<lparr> get_users = (\<lambda>w. (Inr [bob, alice], w)),
       get_titles = (\<lambda>w uid. (if uid = ''u2'' then Inl RequestError else Inr [''Data Engineer''], w)),
       get_sent = (\<lambda>w uid. (Inr [], w)),
       get_jobs = (\<lambda>w titles limit. (Inr [stored_job ''J3'' ''Data Engineer'' 30], w)),
       post_email = (\<lambda>w to html. (Inr 200, w)),
       post_log = (\<lambda>w uid jid. (Inr (), w)) \<rparr>"

section \<open>Sequencing\<close>

lemma bind_ret [simp]: "bind (ret x) f = f x"
  by (auto simp: bind_def ret_def split: prod.splits)

lemma bind_raise [simp]: "bind (raise e) f = raise e"
  by (auto simp: bind_def raise_def)

lemma bind_emit: "bind (emit ev) f w = (case f () w of (r, tr, w') \<Rightarrow> (r, ev # tr, w'))"
  by (simp add: bind_def emit_def)

lemma bind_sys_exit [simp]: "bind (sys_exit n) f = sys_exit n"
  by (auto simp: bind_def sys_exit_def)

lemma bind_request:
  "bind (request op ev) f w =
     (case op w of
        (Inl e, w') \<Rightarrow> (Inl (Exception e), [ev (Inl e)], w')
      | (Inr x, w') \<Rightarrow> (case f x w' of (r, tr, w'') \<Rightarrow> (r, ev (Inr x) # tr, w'')))"
  by (simp add: bind_def request_def split: prod.splits sum.splits)

lemma bind_returns:
  "m w = (Inr x, tr, w') \<Longrightarrow> bind m f w = (case f x w' of (r, tr', w'') \<Rightarrow> (r, tr @ tr', w''))"
  by (simp add: bind_def)


lemma ret_apply: "ret x w = (Inr x, [], w)"
  by (simp add: ret_def)

lemma raise_apply: "raise e w = (Inl (Exception e), [], w)"
  by (simp add: raise_def)

lemma sys_exit_apply: "sys_exit n w = (Inl (SystemExit n), [], w)"
  by (simp add: sys_exit_def)

lemma lift_Inr [simp]: "lift (Inr x) = ret x"
  by (simp add: lift_def)

lemma lift_Inl [simp]: "lift (Inl e) = raise e"
  by (simp add: lift_def)

lemma bind_assoc: "bind (bind m f) g = bind m (\<lambda>x. bind (f x) g)"
  by (rule ext) (simp add: bind_def split: prod.splits sum.splits)

lemma try_except_apply:
  "try_except m h w =
     (case m w of
        (Inl (Exception e), tr, w') \<Rightarrow> (case h e w' of (r, tr', w'') \<Rightarrow> (r, tr @ tr', w''))
      | (Inl (SystemExit n), tr, w') \<Rightarrow> (Inl (SystemExit n), tr, w')
      | (Inr x, tr, w') \<Rightarrow> (Inr x, tr, w'))"
  by (simp add: try_except_def)

lemma bindE:
  assumes "bind m f w = (r, tr, w')"
  obtains (raises) e where "m w = (Inl e, tr, w')" "r = Inl e"
    | (returns) x tr1 w1 tr2 where "m w = (Inr x, tr1, w1)" "f x w1 = (r, tr2, w')" "tr = tr1 @ tr2"
  using assms by (auto simp: bind_def split: prod.splits sum.splits)

lemma requestE:
  assumes "request op ev w = (r, tr, w')"
  obtains (failed) e where "op w = (Inl e, w')" "tr = [ev (Inl e)]" "r = Inl (Exception e)"
    | (answered) x where "op w = (Inr x, w')" "tr = [ev (Inr x)]" "r = Inr x"
  using assms by (auto simp: request_def split: prod.splits sum.splits)

lemma try_exceptE:
  assumes "try_except m h w = (r, tr, w')"
  obtains (ok) x where "m w = (Inr x, tr, w')" "r = Inr x"
    | (passed) n where "m w = (Inl (SystemExit n), tr, w')" "r = Inl (SystemExit n)"
    | (handled) e tr1 w1 tr2 where "m w = (Inl (Exception e), tr1, w1)"
        "h e w1 = (r, tr2, w')" "tr = tr1 @ tr2"
  using assms by (auto simp: try_except_def split: prod.splits sum.splits signal.splits)

lemmas run_simps = ret_apply raise_apply sys_exit_apply bind_assoc bind_emit bind_request

section \<open>The poll ceiling\<close>

lemma poll_loop_busy:
  assumes busy: "\<forall>w. \<exists>s w'. get_status sv w run_id = (Inr s, w') \<and> in_progress s"
  shows "in_progress st \<Longrightarrow> waited + 5 * n = max_wait \<Longrightarrow>
     \<exists>ss w'. length ss = n \<and> (\<forall>s\<in>set ss. in_progress s) \<and>
        poll_loop sv run_id st waited w =
          (Inr (last (st # ss)), concat (map (poll_cycle run_id) ss), w')"
proof (induction n arbitrary: st waited w)
  case 0
  then show ?case by (subst poll_loop.simps) (simp add: ret_def)
next
  case (Suc n)
  from busy obtain s w1 where s: "get_status sv w run_id = (Inr s, w1)" "in_progress s"
    by blast
  from Suc.prems have w: "waited < max_wait" "(waited + 5) + 5 * n = max_wait" by simp_all
  from Suc.IH [OF s(2) w(2), of w1] obtain ss w' where
    ss: "length ss = n" "\<forall>s\<in>set ss. in_progress s"
      "poll_loop sv run_id s (waited + 5) w1 =
          (Inr (last (s # ss)), concat (map (poll_cycle run_id) ss), w')"
    by blast
  have "poll_loop sv run_id st waited w =
          (Inr (last (st # s # ss)), concat (map (poll_cycle run_id) (s # ss)), w')"
    using Suc.prems(1) w(1) s(1) ss(3)
    by (subst poll_loop.simps) (simp add: bind_emit bind_request poll_cycle_def)
  with ss(1,2) s(2) show ?case
    by (intro exI [of _ "s # ss"] exI [of _ w']) simp
qed

lemma cycles_polls: "length (filter is_poll (concat (map (poll_cycle r) ss))) = length ss"
  by (induction ss) (simp_all add: poll_cycle_def)

lemma cycles_slept: "sum_list (map slept (concat (map (poll_cycle r) ss))) = 5 * length ss"
  by (induction ss) (simp_all add: poll_cycle_def)

lemma cycles_retrieval: "filter is_retrieval (concat (map (poll_cycle r) ss)) = []"
  by (induction ss) (simp_all add: poll_cycle_def)

text \<open>
  C4. When the run of a title starts in progress and its status endpoint reports an
  in-progress status at every poll, the adapter polls exactly 60 times, sleeps 300 seconds
  in all, raises nothing, asks for no dataset, collects no listing for the title, and the
  loop over the titles goes on with the next title.
\<close>

theorem poll_ceiling_moves_on:
  assumes start: "post_run sv w t lim = (Inr (run_id, st0), w0)"
    and st0: "in_progress st0"
    and busy: "\<forall>w. \<exists>s w'. get_status sv w run_id = (Inr s, w') \<and> in_progress s"
  shows "\<exists>tr w'. scrape_title sv lim t w = (Inr [], tr, w')
           \<and> length (filter is_poll tr) = 60
           \<and> sum_list (map slept tr) = 300
           \<and> filter is_retrieval tr = []
           \<and> (\<forall>ts results. scrape_titles sv lim (t # ts) results w =
                (case scrape_titles sv lim ts results w' of (r, tr', w'') \<Rightarrow> (r, tr @ tr', w'')))"
proof -
  have "0 + 5 * 60 = max_wait" by (simp add: max_wait_def)
  from poll_loop_busy [OF busy st0 this, of w0] obtain ss w' where
    ss: "length ss = 60" "\<forall>s\<in>set ss. in_progress s"
      "poll_loop sv run_id st0 0 w0 = (Inr (last (st0 # ss)), concat (map (poll_cycle run_id) ss), w')"
    by blast
  let ?s = "last (st0 # ss)"
  let ?tr = "PostRun t lim (Inr (run_id, st0)) # concat (map (poll_cycle run_id) ss) @ [RunWarning ?s]"
  have "in_progress ?s" using st0 ss(2) by (cases ss rule: rev_cases) auto
  then have ns: "?s \<noteq> ''SUCCEEDED''" by (auto simp: in_progress_def)
  have run: "scrape_title sv lim t w = (Inr [], ?tr, w')"
    using start ss(3) ns
    by (simp add: scrape_title_def bind_request bind_returns [of "poll_loop sv run_id st0 0" w0, OF ss(3)] bind_emit ret_def)
  have "\<forall>ts results. scrape_titles sv lim (t # ts) results w =
          (case scrape_titles sv lim ts results w' of (r, tr', w'') \<Rightarrow> (r, ?tr @ tr', w''))"
    by (simp add: bind_returns [of "scrape_title sv lim t" w, OF run])
  with run ss(1) show ?thesis
    by (intro exI [of _ ?tr] exI [of _ w']) (simp add: cycles_polls cycles_slept cycles_retrieval)
qed

theorem poll_ceiling_moves_on_witness:
  "post_run busy_services () ''Data Engineer'' 25 = (Inr (''run-1'', ''READY''), ())
   \<and> in_progress ''READY''
   \<and> (\<forall>w. \<exists>s w'. get_status busy_services w ''run-1'' = (Inr s, w') \<and> in_progress s)
   \<and> (\<exists>tr w'. scrape_title busy_services 25 ''Data Engineer'' () = (Inr [], tr, w')
           \<and> length (filter is_poll tr) = 60
           \<and> sum_list (map slept tr) = 300
           \<and> filter is_retrieval tr = []
           \<and> (\<forall>ts results. scrape_titles busy_services 25 (''Data Engineer'' # ts) results () =
                (case scrape_titles busy_services 25 ts results w' of (r, tr', w'') \<Rightarrow> (r, tr @ tr', w''))))"
proof -
  have h1: "post_run busy_services () ''Data Engineer'' 25 = (Inr (''run-1'', ''READY''), ())"
    by (simp add: busy_services_def)
  have h2: "in_progress ''READY''"
    by (simp add: in_progress_def)
  have h3: "\<forall>w. \<exists>s w'. get_status busy_services w ''run-1'' = (Inr s, w') \<and> in_progress s"
    by (simp add: busy_services_def in_progress_def)
  from poll_ceiling_moves_on [OF h1 h2 h3] h1 h2 h3 show ?thesis
    by blast
qed


section \<open>The upsert loop\<close>

lemma save_jobs_answered:
  assumes answers: "\<forall>w j. \<exists>c w'. post_job sv w j = (Inr c, w')"
  shows "\<forall>job\<in>set jobs. \<exists>r. transform repr src job = Inr r \<Longrightarrow>
     \<exists>tr w'. save_jobs repr src sv jobs n w =
         (Inr (n + int (length (filter (\<lambda>(j, c). c = 200 \<or> c = 201) (upserts tr)))), tr, w')
       \<and> map (Inr \<circ> fst) (upserts tr) = map (transform repr src) jobs
       \<and> save_warnings tr =
           map (external_id \<circ> fst) (filter (\<lambda>(j, c). c \<noteq> 200 \<and> c \<noteq> 201 \<and> c \<noteq> 409) (upserts tr))
       \<and> (\<forall>ev\<in>set tr. raised ev = None)"
proof (induction jobs arbitrary: n w)
  case Nil
  show ?case by (simp add: ret_def)
next
  case (Cons job jobs)
  from Cons.prems obtain r where r: "transform repr src job = Inr r" by auto
  from answers obtain c w1 where c: "post_job sv w r = (Inr c, w1)" by blast
  from Cons.prems have rest: "\<forall>job\<in>set jobs. \<exists>r. transform repr src job = Inr r" by simp
  let ?n = "if c = 200 \<or> c = 201 then n + 1 else n"
  from Cons.IH [OF rest, of ?n w1] obtain tr w' where
    tr: "save_jobs repr src sv jobs ?n w1 =
         (Inr (?n + int (length (filter (\<lambda>(j, c). c = 200 \<or> c = 201) (upserts tr)))), tr, w')"
      "map (Inr \<circ> fst) (upserts tr) = map (transform repr src) jobs"
      "save_warnings tr =
           map (external_id \<circ> fst) (filter (\<lambda>(j, c). c \<noteq> 200 \<and> c \<noteq> 201 \<and> c \<noteq> 409) (upserts tr))"
      "\<forall>ev\<in>set tr. raised ev = None"
    by blast
  let ?tr = "Upsert r (Inr c) # (if c = 200 \<or> c = 201 \<or> c = 409 then [] else [SaveWarning (external_id r)]) @ tr"
  have "save_jobs repr src sv (job # jobs) n w =
         (Inr (n + int (length (filter (\<lambda>(j, c). c = 200 \<or> c = 201) (upserts ?tr)))), ?tr, w')"
    using r c tr(1) by (auto simp: lift_def bind_request bind_emit)
  moreover have "map (Inr \<circ> fst) (upserts ?tr) = map (transform repr src) (job # jobs)"
    using r tr(2) by simp
  moreover have "save_warnings ?tr =
           map (external_id \<circ> fst) (filter (\<lambda>(j, c). c \<noteq> 200 \<and> c \<noteq> 201 \<and> c \<noteq> 409) (upserts ?tr))"
    using tr(3) by simp
  moreover have "\<forall>ev\<in>set ?tr. raised ev = None"
    using tr(4) by simp
  ultimately show ?case by blast
qed

text \<open>
  C1. With the store configured, for jobs that all normalize and a store that answers
  every upsert request with some status code, \<^verbatim>\<open>save_to_supabase\<close> posts exactly one
  upsert per job, in order, raises nothing whatever the status codes are (409 included),
  returns the number of requests answered 200 or 201, and prints a warning for exactly
  the jobs answered otherwise than 200, 201 or 409, going on with the rest.
\<close>

theorem save_to_supabase_counts_inserted:
  assumes cfg: "\<not> unset (SUPABASE_URL cfg)" "\<not> unset (SUPABASE_KEY cfg)"
    and answers: "\<forall>w j. \<exists>c w'. post_job sv w j = (Inr c, w')"
    and canonical: "\<forall>job\<in>set jobs. \<exists>r. transform repr src job = Inr r"
  shows "\<exists>tr w'. save_to_supabase repr src cfg sv jobs w =
         (Inr (int (length (filter (\<lambda>(j, c). c = 200 \<or> c = 201) (upserts tr)))), tr, w')
       \<and> map (Inr \<circ> fst) (upserts tr) = map (transform repr src) jobs
       \<and> save_warnings tr =
           map (external_id \<circ> fst) (filter (\<lambda>(j, c). c \<noteq> 200 \<and> c \<noteq> 201 \<and> c \<noteq> 409) (upserts tr))
       \<and> (\<forall>ev\<in>set tr. raised ev = None)"
  using save_jobs_answered [OF answers canonical, of 0 w] cfg
  by (simp add: save_to_supabase_def)

lemma three_listings_canonical:
  "\<forall>job\<in>set three_listings. \<exists>r. transform repr Linkedin job = Inr r"
  by (simp add: three_listings_def linkedin_db_job_def job_description_def get_or_def)

lemma three_listings_saved:
  "fst (save_to_supabase (\<lambda>v. []) Linkedin configured scripted_store three_listings [201, 409, 500]) = Inr 1"
  by (simp add: save_to_supabase_def configured_def unset_def three_listings_def
     linkedin_db_job_def job_description_def get_or_def dict_get_def run_simps scripted_store_def)

theorem save_to_supabase_counts_inserted_witness:
  "\<not> unset (SUPABASE_URL configured) \<and> \<not> unset (SUPABASE_KEY configured)
   \<and> (\<forall>w j. \<exists>c w'. post_job scripted_store w j = (Inr c, w'))
   \<and> fst (save_to_supabase (\<lambda>v. []) Linkedin configured scripted_store three_listings [201, 409, 500]) = Inr 1
   \<and> (\<exists>tr w'. save_to_supabase (\<lambda>v. []) Linkedin configured scripted_store three_listings [201, 409, 500] =
         (Inr (int (length (filter (\<lambda>(j, c). c = 200 \<or> c = 201) (upserts tr)))), tr, w')
       \<and> map (Inr \<circ> fst) (upserts tr) = map (transform (\<lambda>v. []) Linkedin) three_listings
       \<and> save_warnings tr =
           map (external_id \<circ> fst) (filter (\<lambda>(j, c). c \<noteq> 200 \<and> c \<noteq> 201 \<and> c \<noteq> 409) (upserts tr))
       \<and> (\<forall>ev\<in>set tr. raised ev = None))"
proof -
  have h1: "\<not> unset (SUPABASE_URL configured)" and h2: "\<not> unset (SUPABASE_KEY configured)"
    by (simp_all add: configured_def unset_def)
  have h3: "\<forall>w j. \<exists>c w'. post_job scripted_store w j = (Inr c, w')"
    by (simp add: scripted_store_def split: list.splits)
  note h4 = three_listings_canonical [of "\<lambda>v. []"]
  from save_to_supabase_counts_inserted [OF h1 h2 h3 h4] h1 h2 h3 three_listings_saved show ?thesis
    by blast
qed

section \<open>Normalization\<close>

lemma length_split_on: "length (split_on c s) = Suc (length (filter (\<lambda>x. x = c) s))"
  by (induction s) (auto split: list.splits)

lemma split_on_none: "c \<notin> set s \<Longrightarrow> split_on c s = [s]"
  by (induction s) auto

lemma split_on_ne [simp]: "split_on c s \<noteq> []"
  using length_split_on [of c s] by auto

lemma last_split_on_after: "last (split_on c (pre @ c # s)) = last (split_on c s)"
proof (induction pre)
  case Nil
  show ?case by simp
next
  case (Cons x pre)
  have "2 \<le> length (split_on c (pre @ c # s))"
    by (simp add: length_split_on)
  then obtain w w' ws where "split_on c (pre @ c # s) = w # w' # ws"
    by (cases "split_on c (pre @ c # s)" rule: list.exhaust; cases "tl (split_on c (pre @ c # s))") auto
  with Cons show ?case by auto
qed

lemma final_segment:
  "CHR ''/'' \<notin> set seg \<Longrightarrow> py_last (split_on CHR ''/'' (pre @ CHR ''/'' # seg)) = Inr seg"
  "CHR ''/'' \<notin> set u \<Longrightarrow> py_last (split_on CHR ''/'' u) = Inr u"
  by (simp_all add: py_last_def last_split_on_after split_on_none)

lemma job_description_ok:
  assumes "\<forall>v. map_of job ''description'' = Some v \<longrightarrow> v = JNull \<or> (\<exists>s. v = JStr s)"
  shows "\<exists>s. job_description job = Inr (JStr s) \<and> length s \<le> 5000
     \<and> (map_of job ''description'' = None \<longrightarrow> s = [])
     \<and> (\<forall>d. map_of job ''description'' = Some (JStr d) \<longrightarrow> s = take 5000 d)"
  using assms by (cases "map_of job ''description''") (auto simp: job_description_def get_or_def Let_def)

lemma monster_job_id_ok:
  assumes "\<forall>v. map_of job ''jobUrl'' = Some v \<longrightarrow> (\<exists>u. v = JStr u)"
  shows "\<exists>i. monster_job_id job = Inr i"
  using assms by (cases "map_of job ''jobUrl''") (auto simp: monster_job_id_def get_or_def py_last_def)




lemma linkedin_external_id:
  "linkedin_db_job repr job = Inr r \<Longrightarrow>
     external_id r = ''linkedin_'' @ py_str repr (get_or job ''jobId'' (get_or job ''id'' (JStr [])))"
  by (cases "job_description job") (auto simp: linkedin_db_job_def)

lemma monster_external_id:
  "monster_db_job repr job = Inr r \<Longrightarrow>
     \<exists>i. monster_job_id job = Inr i \<and> external_id r = ''monster_'' @ py_str repr i"
  by (cases "monster_job_id job"; cases "job_description job") (auto simp: monster_db_job_def)

text \<open>
  C7, as amended. The external id of a normalized listing is the source's name, an
  underscore and the text of the native id. In \<^verbatim>\<open>scrape_linkedin.py\<close> the native id is
  the value of \<^verbatim>\<open>jobId\<close> when that key is present, else of \<^verbatim>\<open>id\<close> when present, else
  empty; the URL plays no part. In \<^verbatim>\<open>scrape_monster.py\<close> it is the first truthy value of
  \<^verbatim>\<open>jobId\<close> and \<^verbatim>\<open>id\<close>, and without one the part of \<^verbatim>\<open>jobUrl\<close> after its last slash:
  the whole of it when it has no slash, empty when the key is absent.
\<close>

theorem external_id_from_first_candidate:
  assumes r: "transform repr src job = Inr r"
  shows "(src = Linkedin \<longrightarrow>
            external_id r = ''linkedin_'' @ py_str repr
              (case map_of job ''jobId'' of Some v \<Rightarrow> v
               | None \<Rightarrow> (case map_of job ''id'' of Some v \<Rightarrow> v | None \<Rightarrow> JStr [])))
       \<and> (src = Monster \<longrightarrow>
            (truthy (dict_get job ''jobId'') \<longrightarrow>
               external_id r = ''monster_'' @ py_str repr (dict_get job ''jobId''))
          \<and> (\<not> truthy (dict_get job ''jobId'') \<and> truthy (dict_get job ''id'') \<longrightarrow>
               external_id r = ''monster_'' @ py_str repr (dict_get job ''id''))
          \<and> (\<not> truthy (dict_get job ''jobId'') \<and> \<not> truthy (dict_get job ''id'') \<longrightarrow>
               (map_of job ''jobUrl'' = None \<longrightarrow> external_id r = ''monster_'')
             \<and> (\<forall>u. map_of job ''jobUrl'' = Some (JStr u) \<and> CHR ''/'' \<notin> set u \<longrightarrow>
                    external_id r = ''monster_'' @ u)
             \<and> (\<forall>pre seg. map_of job ''jobUrl'' = Some (JStr (pre @ CHR ''/'' # seg)) \<and> CHR ''/'' \<notin> set seg \<longrightarrow>
                    external_id r = ''monster_'' @ seg)))"
proof (cases src)
  case Linkedin
  with r have "external_id r = ''linkedin_'' @ py_str repr (get_or job ''jobId'' (get_or job ''id'' (JStr [])))"
    by (simp add: linkedin_external_id)
  with Linkedin show ?thesis
    by (simp add: get_or_def)
next
  case Monster
  with r obtain i where i: "monster_job_id job = Inr i"
    and e: "external_id r = ''monster_'' @ py_str repr i"
    using monster_external_id [of repr job r] by auto
  have a: "truthy (dict_get job ''jobId'') \<Longrightarrow> i = dict_get job ''jobId''"
    using i by (simp add: monster_job_id_def)
  have b: "\<not> truthy (dict_get job ''jobId'') \<Longrightarrow> truthy (dict_get job ''id'') \<Longrightarrow> i = dict_get job ''id''"
    using i by (simp add: monster_job_id_def)
  have c: "\<not> truthy (dict_get job ''jobId'') \<Longrightarrow> \<not> truthy (dict_get job ''id'') \<Longrightarrow>
      map_of job ''jobUrl'' = None \<Longrightarrow> i = JStr []"
    using i by (simp add: monster_job_id_def get_or_def py_last_def)
  have d: "\<not> truthy (dict_get job ''jobId'') \<Longrightarrow> \<not> truthy (dict_get job ''id'') \<Longrightarrow>
      map_of job ''jobUrl'' = Some (JStr u) \<Longrightarrow> CHR ''/'' \<notin> set u \<Longrightarrow> i = JStr u" for u
    using i by (simp add: monster_job_id_def get_or_def final_segment)
  have f: "\<not> truthy (dict_get job ''jobId'') \<Longrightarrow> \<not> truthy (dict_get job ''id'') \<Longrightarrow>
      map_of job ''jobUrl'' = Some (JStr (pre @ CHR ''/'' # seg)) \<Longrightarrow> CHR ''/'' \<notin> set seg \<Longrightarrow> i = JStr seg" for pre seg
    using i by (simp add: monster_job_id_def get_or_def final_segment)
  have 1: "truthy (dict_get job ''jobId'') \<longrightarrow>
               external_id r = ''monster_'' @ py_str repr (dict_get job ''jobId'')"
    using a e by simp
  have 2: "\<not> truthy (dict_get job ''jobId'') \<and> truthy (dict_get job ''id'') \<longrightarrow>
               external_id r = ''monster_'' @ py_str repr (dict_get job ''id'')"
    using b e by simp
  have 3: "\<not> truthy (dict_get job ''jobId'') \<and> \<not> truthy (dict_get job ''id'') \<longrightarrow>
               (map_of job ''jobUrl'' = None \<longrightarrow> external_id r = ''monster_'')"
    using c e by simp
  have 4: "\<not> truthy (dict_get job ''jobId'') \<and> \<not> truthy (dict_get job ''id'') \<longrightarrow>
      (\<forall>u. map_of job ''jobUrl'' = Some (JStr u) \<and> CHR ''/'' \<notin> set u \<longrightarrow>
                    external_id r = ''monster_'' @ u)"
    using d e by simp
  have 5: "\<not> truthy (dict_get job ''jobId'') \<and> \<not> truthy (dict_get job ''id'') \<longrightarrow>
      (\<forall>pre seg. map_of job ''jobUrl'' = Some (JStr (pre @ CHR ''/'' # seg)) \<and> CHR ''/'' \<notin> set seg \<longrightarrow>
                    external_id r = ''monster_'' @ seg)"
    using f e by simp
  from 1 2 3 4 5 Monster show ?thesis by blast
qed

theorem external_id_from_first_candidate_witness:
  "\<exists>r. transform (\<lambda>v. []) Monster monster_url_listing = Inr r \<and> external_id r = ''monster_abc123''"
proof -
  have "\<forall>v. map_of monster_url_listing ''jobUrl'' = Some v \<longrightarrow> (\<exists>u. v = JStr u)"
    by (simp add: monster_url_listing_def)
  then obtain i where i: "monster_job_id monster_url_listing = Inr i"
    using monster_job_id_ok by blast
  have "\<forall>v. map_of monster_url_listing ''description'' = Some v \<longrightarrow> v = JNull \<or> (\<exists>s. v = JStr s)"
    by (simp add: monster_url_listing_def)
  then obtain s where s: "job_description monster_url_listing = Inr (JStr s)"
    using job_description_ok by blast
  from i s obtain r where r: "transform (\<lambda>v. []) Monster monster_url_listing = Inr r"
    by (simp add: monster_db_job_def)
  have u: "map_of monster_url_listing ''jobUrl'' =
      Some (JStr (''https://www.monster.com/job-openings/nurse'' @ CHR ''/'' # ''abc123''))"
    by (simp add: monster_url_listing_def)
  have n: "\<not> truthy (dict_get monster_url_listing ''jobId'')" "\<not> truthy (dict_get monster_url_listing ''id'')"
    by (simp_all add: monster_url_listing_def dict_get_def get_or_def)
  have "CHR ''/'' \<notin> set ''abc123''" by simp
  with external_id_from_first_candidate [OF r] u n have "external_id r = ''monster_'' @ ''abc123''"
    by blast
  with r show ?thesis by simp
qed

text \<open>
  C7, as stated, fails for \<^verbatim>\<open>scrape_linkedin.py\<close>: a listing with a URL and no id field
  gets the external id \<^verbatim>\<open>linkedin_\<close>, not one derived from the URL.
\<close>

theorem linkedin_ignores_url:
  "map_sum id external_id (transform (\<lambda>v. []) Linkedin linkedin_url_listing) = Inr ''linkedin_''"
  by (simp add: linkedin_url_listing_def linkedin_db_job_def job_description_def get_or_def dict_get_def)

section \<open>Failed requests in the adapter\<close>





lemma stops_ret [simp]: "stops (ret x)"
  by (simp add: stops_def ret_def failure_last_def)

lemma stops_raise [simp]: "stops (raise e)"
  by (simp add: stops_def raise_def failure_last_def)

lemma stops_lift [simp]: "stops (lift r)"
  by (cases r) simp_all














section \<open>The titles submitted\<close>

lemma submitted_append: "submitted (a @ b) = submitted a @ submitted b"
  by (induction a rule: submitted.induct) simp_all

lemma none_ret [simp]: "submits_none (ret x)"
  by (simp add: submits_none_def ret_def)

lemma none_raise [simp]: "submits_none (raise e)"
  by (simp add: submits_none_def raise_def)

lemma none_sys_exit [simp]: "submits_none (sys_exit n)"
  by (simp add: submits_none_def sys_exit_def)

lemma none_lift [simp]: "submits_none (lift r)"
  by (cases r) simp_all

lemma none_emit: "submitted [ev] = [] \<Longrightarrow> submits_none (emit ev)"
  by (simp add: submits_none_def emit_def)

lemma none_request: "(\<And>r. submitted [ev r] = []) \<Longrightarrow> submits_none (request op ev)"
  by (auto simp: submits_none_def elim!: requestE)

lemma submits_noneD: "submits_none m \<Longrightarrow> m w = (r, tr, w') \<Longrightarrow> submitted tr = []"
  unfolding submits_none_def by blast

lemma none_bind:
  assumes "submits_none m" and "\<And>x. submits_none (f x)"
  shows "submits_none (bind m f)"
  unfolding submits_none_def
proof (intro allI impI)
  fix w r tr w'
  assume "bind m f w = (r, tr, w')"
  then show "submitted tr = []"
  proof (cases rule: bindE)
    case (raises e)
    with assms(1) show ?thesis by (simp add: submits_noneD)
  next
    case (returns x tr1 w1 tr2)
    with assms(1) assms(2) [of x] show ?thesis
      by (simp add: submitted_append submits_noneD)
  qed
qed

lemma none_try_except:
  assumes "submits_none m" and "\<And>e. submits_none (h e)"
  shows "submits_none (try_except m h)"
  unfolding submits_none_def
proof (intro allI impI)
  fix w r tr w'
  assume "try_except m h w = (r, tr, w')"
  then show "submitted tr = []"
  proof (cases rule: try_exceptE)
    case (ok x)
    with assms(1) show ?thesis by (simp add: submits_noneD)
  next
    case (passed n)
    with assms(1) show ?thesis by (simp add: submits_noneD)
  next
    case (handled e tr1 w1 tr2)
    with assms(1) assms(2) [of e] show ?thesis
      by (simp add: submitted_append submits_noneD)
  qed
qed

lemma none_poll_loop: "submits_none (poll_loop sv run_id status waited)"
proof (induction sv run_id status waited rule: poll_loop.induct)
  case (1 sv run_id status waited)
  show ?case
  proof (cases "in_progress status \<and> waited < max_wait")
    case True
    have "submits_none (bind (emit (Sleep 5)) (\<lambda>_.
        bind (request (\<lambda>w. get_status sv w run_id) (GetStatus run_id)) (\<lambda>status'.
        poll_loop sv run_id status' (waited + 5))))"
      by (intro none_bind none_emit none_request 1 [OF True]) simp_all
    with True show ?thesis
      by (subst poll_loop.simps) simp
  next
    case False
    then show ?thesis by (subst poll_loop.simps) auto
  qed
qed

lemma none_save_jobs: "submits_none (save_jobs repr src sv jobs n)"
  by (induction jobs arbitrary: n) (auto intro!: none_bind none_request none_emit)

lemma none_save_to_supabase: "submits_none (save_to_supabase repr src cfg sv jobs)"
  by (simp add: save_to_supabase_def none_save_jobs)

lemma scrape_title_submits:
  assumes "scrape_title sv lim t w = (r, tr, w')"
  shows "submitted tr = [t]"
proof -
  have rest: "submits_none (bind (poll_loop sv run_id status 0) (\<lambda>status.
     if status \<noteq> ''SUCCEEDED'' then
       bind (emit (RunWarning status)) (\<lambda>_. ret [])
     else
       bind (request (\<lambda>w. get_dataset sv w run_id) (GetDataset run_id)) (\<lambda>jobs.
       lift (tag_jobs t jobs))))" for run_id status
    by (auto intro!: none_bind none_poll_loop none_emit none_request)
  from assms show ?thesis
    unfolding scrape_title_def
  proof (cases rule: bindE)
    case (raises e)
    then show ?thesis by (auto elim!: requestE)
  next
    case (returns x tr1 w1 tr2)
    obtain run_id status where x: "x = (run_id, status)" by (cases x)
    from returns(1) have "tr1 = [PostRun t lim (Inr x)]" by (auto elim!: requestE)
    moreover from returns(2) rest [of run_id status] have "submitted tr2 = []"
      unfolding x by (simp add: submits_noneD)
    ultimately show ?thesis using returns(3) by (simp add: submitted_append)
  qed
qed

lemma scrape_titles_submits:
  "scrape_titles sv lim ts results w = (r, tr, w') \<Longrightarrow>
     prefix (submitted tr) ts \<and> ((\<exists>x. r = Inr x) \<longrightarrow> submitted tr = ts)"
proof (induction ts arbitrary: results w r tr w')
  case Nil
  then show ?case by (simp add: ret_def)
next
  case (Cons t ts)
  from Cons.prems have "bind (scrape_title sv lim t) (\<lambda>jobs.
     scrape_titles sv lim ts (results @ jobs)) w = (r, tr, w')" by simp
  then show ?case
  proof (cases rule: bindE)
    case (raises e)
    then show ?thesis by (simp add: scrape_title_submits)
  next
    case (returns x tr1 w1 tr2)
    from Cons.IH [OF returns(2)] scrape_title_submits [OF returns(1)] returns(3)
    show ?thesis by (simp add: submitted_append)
  qed
qed

lemma after_titles_submits:
  assumes "(if jt = [] then ret ()
       else bind (try_except (run_apify_actor cfg sv jt lim) (\<lambda>e. sys_exit 1)) (\<lambda>jobs.
            if jobs \<noteq> [] then
              bind (try_except (save_to_supabase repr src cfg sv jobs) (\<lambda>e. sys_exit 1)) (\<lambda>saved_count.
              ret ())
            else ret ())) w = (r, tr, w')"
  shows "prefix (submitted tr) jt \<and> (r = Inr () \<longrightarrow> submitted tr = jt)"
proof (cases "jt = []")
  case True
  with assms show ?thesis by (simp add: ret_def)
next
  case False
  have run: "prefix (submitted tr1) jt \<and> ((\<exists>x. r1 = Inr x) \<longrightarrow> submitted tr1 = jt)"
    if "run_apify_actor cfg sv jt lim w = (r1, tr1, w1)" for r1 tr1 w1
    using that scrape_titles_submits [of sv lim jt "[]" w r1 tr1 w1]
    by (auto simp: run_apify_actor_def raise_def split: if_splits)
  have save: "submits_none (if jobs \<noteq> [] then
              bind (try_except (save_to_supabase repr src cfg sv jobs) (\<lambda>e. sys_exit 1)) (\<lambda>saved_count.
              ret ())
            else ret ())" for jobs
    by (auto intro!: none_bind none_try_except none_save_to_supabase)
  from assms False have "bind (try_except (run_apify_actor cfg sv jt lim) (\<lambda>e. sys_exit 1)) (\<lambda>jobs.
            if jobs \<noteq> [] then
              bind (try_except (save_to_supabase repr src cfg sv jobs) (\<lambda>e. sys_exit 1)) (\<lambda>saved_count.
              ret ())
            else ret ()) w = (r, tr, w')"
    by simp
  then show ?thesis
  proof (cases rule: bindE)
    case (raises e)
    from raises(1) have "\<exists>r1 tr1 w1. run_apify_actor cfg sv jt lim w = (r1, tr1, w1) \<and> submitted tr = submitted tr1"
      by (cases rule: try_exceptE) (auto simp: sys_exit_def)
    with run raises(2) show ?thesis by auto
  next
    case (returns jobs tr1 w1 tr2)
    from returns(1) have "run_apify_actor cfg sv jt lim w = (Inr jobs, tr1, w1)"
      by (cases rule: try_exceptE) (auto simp: sys_exit_def)
    from run [OF this] have "submitted tr1 = jt" by simp
    moreover from save [of jobs] returns(2) have "submitted tr2 = []"
      by (simp add: submits_noneD)
    ultimately show ?thesis using returns(3) by (simp add: submitted_append)
  qed
qed

lemma distinct_list_of_set:
  assumes "\<forall>xs. mset (order xs) = mset xs"
  shows "distinct (list_of_set order xs)"
proof -
  from assms have "mset (order (remdups xs)) = mset (remdups xs)" by blast
  then have "distinct (order (remdups xs)) = distinct (remdups xs)"
    by (rule mset_eq_imp_distinct_iff)
  then show ?thesis by (simp add: list_of_set_def)
qed

lemma resolve_titles_store:
  assumes "\<forall>xs. mset (order xs) = mset xs"
    and "resolve_titles order cfg sv [] w = (r, tr, w')"
  shows "submitted tr = [] \<and> (\<forall>jt. r = Inr jt \<longrightarrow> distinct jt)"
  using assms(2)
  by (auto simp: resolve_titles_def sys_exit_def ret_def distinct_list_of_set [OF assms(1)]
      elim!: bindE requestE split: if_splits)

text \<open>
  C9, as amended. When no title is given on the command line, the titles come from the
  store through \<^verbatim>\<open>list(set(...))\<close> and the titles submitted for scraping contain no
  duplicate. Titles given on the command line are used as they are: the titles
  submitted are a prefix of the arguments, in order, and all of them when the script
  returns normally.
\<close>

theorem titles_submitted:
  assumes perm: "\<forall>xs. mset (order xs) = mset xs"
    and run: "scraper_main order repr src cfg sv argv_titles lim w = (r, tr, w')"
  shows "(argv_titles = [] \<longrightarrow> distinct (submitted tr))
     \<and> (argv_titles \<noteq> [] \<longrightarrow>
          prefix (submitted tr) argv_titles \<and> (r = Inr () \<longrightarrow> submitted tr = argv_titles))"
proof (cases "argv_titles = []")
  case False
  with run after_titles_submits [of argv_titles cfg sv lim repr src w r tr w'] show ?thesis
    by (simp add: scraper_main_def resolve_titles_def)
next
  case True
  from run show ?thesis
    unfolding scraper_main_def
  proof (cases rule: bindE)
    case (raises e)
    with True resolve_titles_store [OF perm, of cfg sv w "Inl e" tr w'] have "submitted tr = []"
      by simp
    with True show ?thesis by simp
  next
    case (returns jt tr1 w1 tr2)
    from returns(1) True resolve_titles_store [OF perm, of cfg sv w "Inr jt" tr1 w1]
    have jt: "distinct jt" and tr1: "submitted tr1 = []"
      by simp_all
    from after_titles_submits [OF returns(2)] have "prefix (submitted tr2) jt" by simp
    with jt have "distinct (submitted tr2)"
      by (auto simp: prefix_def)
    with tr1 returns(3) True show ?thesis by (simp add: submitted_append)
  qed
qed

lemma poll_loop_done: "\<not> in_progress status \<Longrightarrow> poll_loop sv run_id status waited = ret status"
  by (subst poll_loop.simps) simp

lemmas unfold_simps = bind_def request_def emit_def ret_def raise_def sys_exit_def try_except_def

lemma store_titles_run:
  "scraper_main id (\<lambda>v. []) Monster configured scripted_store [] 25 [] =
     (Inr (),
      [GetJobTitles (Inr [''Data Engineer'', ''Nurse'', ''Data Engineer'']),
       PostRun ''Nurse'' 25 (Inr (''run-Nurse'', ''SUCCEEDED'')),
       GetDataset ''run-Nurse'' (Inr (JArr [])),
       PostRun ''Data Engineer'' 25 (Inr (''run-Data Engineer'', ''SUCCEEDED'')),
       GetDataset ''run-Data Engineer'' (Inr (JArr []))],
      [])"
  by (simp add: scraper_main_def resolve_titles_def configured_def unset_def list_of_set_def
      run_apify_actor_def scrape_title_def poll_loop_done in_progress_def scripted_store_def unfold_simps)

lemma repeated_titles_run:
  "scraper_main id (\<lambda>v. []) Linkedin configured scripted_store [''Nurse'', ''Nurse''] 25 [] =
     (Inr (),
      [PostRun ''Nurse'' 25 (Inr (''run-Nurse'', ''SUCCEEDED'')),
       GetDataset ''run-Nurse'' (Inr (JArr [])),
       PostRun ''Nurse'' 25 (Inr (''run-Nurse'', ''SUCCEEDED'')),
       GetDataset ''run-Nurse'' (Inr (JArr []))],
      [])"
  by (simp add: scraper_main_def resolve_titles_def configured_def unset_def
      run_apify_actor_def scrape_title_def poll_loop_done in_progress_def scripted_store_def unfold_simps)

theorem titles_submitted_witness:
  "(\<forall>xs :: string list. mset (id xs) = mset xs)
   \<and> submitted (fst (snd (scraper_main id (\<lambda>v. []) Monster configured scripted_store [] 25 []))) =
        [''Nurse'', ''Data Engineer'']
   \<and> distinct (submitted (fst (snd (scraper_main id (\<lambda>v. []) Monster configured scripted_store [] 25 []))))
   \<and> prefix (submitted (fst (snd (scraper_main id (\<lambda>v. []) Linkedin configured scripted_store [''Nurse'', ''Nurse''] 25 []))))
        [''Nurse'', ''Nurse'']"
proof -
  have p: "\<forall>xs :: string list. mset (id xs) = mset xs" by simp
  from titles_submitted [OF p store_titles_run] titles_submitted [OF p repeated_titles_run]
  show ?thesis
    by (simp add: store_titles_run repeated_titles_run)
qed

text \<open>
  C9, as stated, fails for titles given on the command line: \<^verbatim>\<open>scrape_linkedin.py\<close>
  called with the title \<^verbatim>\<open>Nurse\<close> twice submits it twice.
\<close>

theorem command_line_titles_not_deduplicated:
  "submitted (fst (snd (linkedin_main id (\<lambda>v. []) configured scripted_store [''Nurse'', ''Nurse''] []))) =
     [''Nurse'', ''Nurse'']
   \<and> \<not> distinct (submitted (fst (snd (linkedin_main id (\<lambda>v. []) configured scripted_store [''Nurse'', ''Nurse''] []))))"
  by (simp add: linkedin_main_def repeated_titles_run)

section \<open>The digest run\<close>

lemma log_sent_jobs_trace:
  "log_sent_jobs sv uid jobs w = (r, tr, w') \<Longrightarrow>
     mails tr = [] \<and> job_fetches tr = 0 \<and> users_begun tr = []
     \<and> prefix (log_writes tr) (map (\<lambda>j. (uid, job_id j)) jobs)
     \<and> ((\<exists>x. r = Inr x) \<longrightarrow> log_writes tr = map (\<lambda>j. (uid, job_id j)) jobs)"
proof (induction jobs arbitrary: w r tr w')
  case Nil
  then show ?case by (simp add: ret_def)
next
  case (Cons job jobs)
  from Cons.prems have "bind (request (\<lambda>w. post_log sv w uid (job_id job)) (LogWrite uid (job_id job))) (\<lambda>_.
     log_sent_jobs sv uid jobs) w = (r, tr, w')" by simp
  then show ?case
  proof (cases rule: bindE)
    case (raises e)
    then show ?thesis by (auto elim!: requestE)
  next
    case (returns x tr1 w1 tr2)
    from returns(1) have "tr1 = [LogWrite uid (job_id job) (Inr x)]" by (auto elim!: requestE)
    with Cons.IH [OF returns(2)] returns(3) show ?thesis by simp
  qed
qed

lemma log_sent_jobs_answered:
  assumes "\<forall>w uid jid. \<exists>w'. post_log sv w uid jid = (Inr (), w')"
  shows "\<exists>tr w'. log_sent_jobs sv uid jobs w = (Inr (), tr, w')"
proof (induction jobs arbitrary: w)
  case Nil
  show ?case by (simp add: ret_def)
next
  case (Cons job jobs)
  from assms obtain w1 where "post_log sv w uid (job_id job) = (Inr (), w1)" by blast
  moreover from Cons [of w1] obtain tr w' where "log_sent_jobs sv uid jobs w1 = (Inr (), tr, w')" by blast
  ultimately show ?case by (simp add: bind_request)
qed

text \<open>
  C8. A subscriber whose title query gives no title is skipped: the only request made
  for them is the title query; no jobs are fetched, no mail of either kind is posted, no
  log row is written, the counters and the error list are unchanged, and the loop goes on
  with the next subscriber.
\<close>

theorem no_titles_skips_user:
  assumes "get_titles sv w (user_id u) = (Inr [], w1)"
  shows "\<exists>tr. process_user cfg sv u w = (Inr NoTitles, tr, w1)
     \<and> job_fetches tr = 0 \<and> mails tr = [] \<and> log_writes tr = []
     \<and> (\<forall>us s. process_users cfg sv (u # us) s w =
           (case process_users cfg sv us s w1 of (r, tr', w') \<Rightarrow> (r, tr @ tr', w')))"
proof -
  let ?tr = "[GetTitles (user_id u) (Inr [])]"
  have run: "process_user cfg sv u w = (Inr NoTitles, ?tr, w1)"
    using assms by (simp add: process_user_def bind_request ret_apply)
  then have "try_except (process_user cfg sv u) (\<lambda>e. ret (Raised e)) w = (Inr NoTitles, ?tr, w1)"
    by (simp add: try_except_apply)
  note step = bind_returns [of "try_except (process_user cfg sv u) (\<lambda>e. ret (Raised e))" w, OF this]
  have "\<forall>us s. process_users cfg sv (u # us) s w =
           (case process_users cfg sv us s w1 of (r, tr', w') \<Rightarrow> (r, ?tr @ tr', w'))"
    by (simp add: step)
  with run show ?thesis by (intro exI [of _ ?tr]) simp
qed

theorem no_titles_skips_user_witness:
  "get_titles store_services example_store (user_id bob) = (Inr [], example_store)
   \<and> (\<exists>tr. process_user configured store_services bob example_store = (Inr NoTitles, tr, example_store)
     \<and> job_fetches tr = 0 \<and> mails tr = [] \<and> log_writes tr = []
     \<and> (\<forall>us s. process_users configured store_services (bob # us) s example_store =
           (case process_users configured store_services us s example_store of (r, tr', w') \<Rightarrow> (r, tr @ tr', w'))))"
proof -
  have h: "get_titles store_services example_store (user_id bob) = (Inr [], example_store)"
    by (simp add: store_services_def example_store_def bob_def)
  from no_titles_skips_user [OF h] h show ?thesis by blast
qed


lemma send_email_trace:
  assumes "send_email cfg sv to html w = (r, tr, w')"
  shows "(tr = [] \<and> (\<exists>e. r = Inl (Exception e)))
     \<or> (\<exists>e. tr = [SendEmail to html (Inl e)] \<and> r = Inl (Exception e))
     \<or> (\<exists>c. tr = [SendEmail to html (Inr c)] \<and> r = Inr (c = 200))"
  using assms
  by (auto simp: send_email_def raise_def ret_def elim!: bindE requestE split: if_splits)

lemma deliver_trace:
  assumes "(if new_jobs \<noteq> [] then
         bind (send_email cfg sv (email u) (JobsMail new_jobs (unsubscribe_token u))) (\<lambda>ok.
         if ok then bind (log_sent_jobs sv (user_id u) new_jobs) (\<lambda>_. ret SentJobs)
         else ret SendFailed)
       else
         bind (send_email cfg sv (email u) (NoJobsMail (unsubscribe_token u))) (\<lambda>ok.
         if ok then ret SentNoJobs else ret SendFailed)) w = (r, tr, w')"
  shows "job_fetches tr = 0 \<and> users_begun tr = []
     \<and> (mails tr = [] \<or> (\<exists>a. mails tr =
            [(email u, if new_jobs \<noteq> [] then JobsMail new_jobs (unsubscribe_token u)
                       else NoJobsMail (unsubscribe_token u), a)]))
     \<and> (log_writes tr = [] \<or> (new_jobs \<noteq> []
            \<and> mails tr = [(email u, JobsMail new_jobs (unsubscribe_token u), Inr 200)]))
     \<and> prefix (log_writes tr) (map (\<lambda>j. (user_id u, job_id j)) new_jobs)
     \<and> (r = Inr SentJobs \<longrightarrow> new_jobs \<noteq> []
            \<and> mails tr = [(email u, JobsMail new_jobs (unsubscribe_token u), Inr 200)]
            \<and> log_writes tr = map (\<lambda>j. (user_id u, job_id j)) new_jobs)
     \<and> (r = Inr SentNoJobs \<longrightarrow> new_jobs = []
            \<and> mails tr = [(email u, NoJobsMail (unsubscribe_token u), Inr 200)])
     \<and> (r = Inr SendFailed \<longrightarrow> (\<exists>c. c \<noteq> 200 \<and> mails tr =
            [(email u, if new_jobs \<noteq> [] then JobsMail new_jobs (unsubscribe_token u)
                       else NoJobsMail (unsubscribe_token u), Inr c)]))
     \<and> r \<noteq> Inr NoTitles"
proof (cases "new_jobs = []")
  case True
  with assms show ?thesis
    by (auto elim!: bindE dest!: send_email_trace simp: ret_def split: if_splits)
next
  case False
  with assms have "bind (send_email cfg sv (email u) (JobsMail new_jobs (unsubscribe_token u))) (\<lambda>ok.
         if ok then bind (log_sent_jobs sv (user_id u) new_jobs) (\<lambda>_. ret SentJobs)
         else ret SendFailed) w = (r, tr, w')" by simp
  then show ?thesis
  proof (cases rule: bindE)
    case (raises e)
    with False show ?thesis by (auto dest!: send_email_trace)
  next
    case (returns ok tr1 w1 tr2)
    show ?thesis
    proof (cases ok)
      case False
      with returns \<open>new_jobs \<noteq> []\<close> show ?thesis
        by (auto dest!: send_email_trace simp: ret_def)
    next
      case True
      with returns(1) have tr1: "tr1 = [SendEmail (email u) (JobsMail new_jobs (unsubscribe_token u)) (Inr 200)]"
        by (auto dest!: send_email_trace)
      from True returns(2) have "bind (log_sent_jobs sv (user_id u) new_jobs) (\<lambda>_. ret SentJobs) w1 = (r, tr2, w')"
        by simp
      then have "mails tr2 = [] \<and> job_fetches tr2 = 0 \<and> users_begun tr2 = []
         \<and> prefix (log_writes tr2) (map (\<lambda>j. (user_id u, job_id j)) new_jobs)
         \<and> (r = Inr SentJobs \<longrightarrow> log_writes tr2 = map (\<lambda>j. (user_id u, job_id j)) new_jobs)
         \<and> r \<noteq> Inr SentNoJobs \<and> r \<noteq> Inr SendFailed \<and> r \<noteq> Inr NoTitles"
        by (cases rule: bindE) (auto dest!: log_sent_jobs_trace simp: ret_def)
      with tr1 returns(3) \<open>new_jobs \<noteq> []\<close> show ?thesis by simp
    qed
  qed
qed

lemma mails_append: "mails (a @ b) = mails a @ mails b"
  by (induction a rule: mails.induct) simp_all

lemma log_writes_append: "log_writes (a @ b) = log_writes a @ log_writes b"
  by (induction a rule: log_writes.induct) simp_all

lemma job_fetches_append: "job_fetches (a @ b) = job_fetches a + job_fetches b"
  by (induction a rule: job_fetches.induct) simp_all

lemma users_begun_append: "users_begun (a @ b) = users_begun a @ users_begun b"
  by (induction a rule: users_begun.induct) simp_all

lemma deliver_answered:
  assumes posts: "\<forall>w uid jid. \<exists>w'. post_log sv w uid jid = (Inr (), w')"
    and run: "bind (send_email cfg sv (email u) (JobsMail new_jobs (unsubscribe_token u))) (\<lambda>ok.
         if ok then bind (log_sent_jobs sv (user_id u) new_jobs) (\<lambda>_. ret SentJobs)
         else ret SendFailed) w = (r, tr, w')"
    and sent: "(to, html, Inr 200) \<in> set (mails tr)"
  shows "r = Inr SentJobs"
  using run
proof (cases rule: bindE)
  case (raises e)
  with sent show ?thesis by (auto dest!: send_email_trace)
next
  case (returns ok tr1 w1 tr2)
  show ?thesis
  proof (cases ok)
    case False
    with returns sent show ?thesis by (auto dest!: send_email_trace simp: ret_def)
  next
    case True
    from log_sent_jobs_answered [OF posts, of "user_id u" new_jobs w1] obtain tr3 w3 where
      "log_sent_jobs sv (user_id u) new_jobs w1 = (Inr (), tr3, w3)" by blast
    with True returns(2) show ?thesis by (simp add: bind_def ret_def)
  qed
qed

lemma process_user_split:
  assumes "process_user cfg sv u w = (r, tr, w')"
  shows "(mails tr = [] \<and> log_writes tr = [] \<and> job_fetches tr \<le> 1 \<and> users_begun tr = [user_id u]
        \<and> (\<forall>x. r = Inr x \<longrightarrow> x = NoTitles))
     \<or> (\<exists>titles sent all w3 post. titles \<noteq> []
          \<and> tr = [GetTitles (user_id u) (Inr titles), GetSent (user_id u) (Inr sent),
                  GetJobs titles 20 (Inr all)] @ post
          \<and> (if new_jobs_of all sent \<noteq> [] then
               bind (send_email cfg sv (email u) (JobsMail (new_jobs_of all sent) (unsubscribe_token u))) (\<lambda>ok.
               if ok then bind (log_sent_jobs sv (user_id u) (new_jobs_of all sent)) (\<lambda>_. ret SentJobs)
               else ret SendFailed)
             else
               bind (send_email cfg sv (email u) (NoJobsMail (unsubscribe_token u))) (\<lambda>ok.
               if ok then ret SentNoJobs else ret SendFailed)) w3 = (r, post, w'))"
  using assms unfolding process_user_def
proof (cases rule: bindE)
  case (raises e)
  then show ?thesis by (auto elim!: requestE)
next
  case (returns titles tr1 w1 tr2)
  from returns(1) have tr1: "tr1 = [GetTitles (user_id u) (Inr titles)]" by (auto elim!: requestE)
  show ?thesis
  proof (cases "titles = []")
    case True
    with returns tr1 show ?thesis by (auto simp: ret_def)
  next
    case False
    with returns(2) have "bind (request (\<lambda>w. get_sent sv w (user_id u)) (GetSent (user_id u))) (\<lambda>sent_job_ids.
       bind (request (\<lambda>w. get_jobs sv w titles 20) (GetJobs titles 20)) (\<lambda>all_jobs.
       let new_jobs = new_jobs_of all_jobs sent_job_ids in
       if new_jobs \<noteq> [] then
         bind (send_email cfg sv (email u) (JobsMail new_jobs (unsubscribe_token u))) (\<lambda>ok.
         if ok then bind (log_sent_jobs sv (user_id u) new_jobs) (\<lambda>_. ret SentJobs)
         else ret SendFailed)
       else
         bind (send_email cfg sv (email u) (NoJobsMail (unsubscribe_token u))) (\<lambda>ok.
         if ok then ret SentNoJobs else ret SendFailed))) w1 = (r, tr2, w')" by simp
    then show ?thesis
    proof (cases rule: bindE)
      case (raises e)
      with tr1 returns(3) show ?thesis by (auto elim!: requestE)
    next
      case sent: (returns sent tr3 w2 tr4)
      from sent(1) have tr3: "tr3 = [GetSent (user_id u) (Inr sent)]" by (auto elim!: requestE)
      from sent(2) show ?thesis
      proof (cases rule: bindE)
        case (raises e)
        with tr1 tr3 returns(3) sent(3) show ?thesis by (auto elim!: requestE)
      next
        case all: (returns all tr5 w3 post)
        from all(1) have tr5: "tr5 = [GetJobs titles 20 (Inr all)]" by (auto elim!: requestE)
        from all(2) tr1 tr3 tr5 returns(3) sent(3) all(3) False show ?thesis
          by (intro disjI2 exI [of _ titles] exI [of _ sent] exI [of _ all] exI [of _ w3] exI [of _ post])
             (simp add: Let_def)
      qed
    qed
  qed
qed

lemma send_email_posts:
  assumes "\<not> unset (RESEND_API_KEY cfg)" and "send_email cfg sv to html w = (r, tr, w')"
  shows "\<exists>a. tr = [SendEmail to html a]"
  using assms
  by (auto simp: send_email_def ret_def elim!: bindE requestE)

lemma deliver_posts:
  assumes key: "\<not> unset (RESEND_API_KEY cfg)"
    and run: "(if new_jobs \<noteq> [] then
         bind (send_email cfg sv (email u) (JobsMail new_jobs (unsubscribe_token u))) (\<lambda>ok.
         if ok then bind (log_sent_jobs sv (user_id u) new_jobs) (\<lambda>_. ret SentJobs)
         else ret SendFailed)
       else
         bind (send_email cfg sv (email u) (NoJobsMail (unsubscribe_token u))) (\<lambda>ok.
         if ok then ret SentNoJobs else ret SendFailed)) w = (r, tr, w')"
  shows "\<exists>a. mails tr =
            [(email u, if new_jobs \<noteq> [] then JobsMail new_jobs (unsubscribe_token u)
                       else NoJobsMail (unsubscribe_token u), a)]"
proof -
  have "mails tr \<noteq> []"
  proof (cases "new_jobs = []")
    case True
    with run show ?thesis
      by (auto elim!: bindE dest!: send_email_posts [OF key] simp: mails_append)
  next
    case False
    with run show ?thesis
      by (auto elim!: bindE dest!: send_email_posts [OF key] simp: mails_append)
  qed
  with deliver_trace [OF run] show ?thesis by blast
qed

lemma store_queries:
  "get_titles store_services s (user_id u) = (Inr (preferences s u), s)"
  "get_sent store_services s (user_id u) = (Inr (already_sent s u), s)"
  "get_jobs store_services s titles n = (Inr (fetch_recent_matching_jobs titles n (jobs_table s)), s)"
  by (simp_all add: store_services_def preferences_def already_sent_def)

lemma store_new_jobs:
  "new_jobs_of (fetch_recent_matching_jobs (preferences s u) 20 (jobs_table s)) (already_sent s u) =
     build_digest s u"
  by (simp add: build_digest_def new_jobs_of_def)

lemma store_process_user:
  assumes "preferences s u \<noteq> []"
  shows "process_user cfg store_services u s =
     (case (if build_digest s u \<noteq> [] then
         bind (send_email cfg store_services (email u) (JobsMail (build_digest s u) (unsubscribe_token u))) (\<lambda>ok.
         if ok then bind (log_sent_jobs store_services (user_id u) (build_digest s u)) (\<lambda>_. ret SentJobs)
         else ret SendFailed)
       else
         bind (send_email cfg store_services (email u) (NoJobsMail (unsubscribe_token u))) (\<lambda>ok.
         if ok then ret SentNoJobs else ret SendFailed)) s of
      (r, tr, s') \<Rightarrow>
        (r, [GetTitles (user_id u) (Inr (preferences s u)),
             GetSent (user_id u) (Inr (already_sent s u)),
             GetJobs (preferences s u) 20 (Inr (fetch_recent_matching_jobs (preferences s u) 20 (jobs_table s)))] @ tr, s'))"
  using assms
  by (simp add: process_user_def bind_request store_queries Let_def store_new_jobs
      split: prod.splits cong: if_cong)

lemma store_mail:
  assumes key: "\<not> unset (RESEND_API_KEY cfg)" and prefs: "preferences s u \<noteq> []"
  shows "\<exists>r tr s' a. process_user cfg store_services u s = (r, tr, s')
     \<and> mails tr = [(email u, if build_digest s u \<noteq> [] then JobsMail (build_digest s u) (unsubscribe_token u)
                            else NoJobsMail (unsubscribe_token u), a)]"
proof -
  let ?D = "(if build_digest s u \<noteq> [] then
         bind (send_email cfg store_services (email u) (JobsMail (build_digest s u) (unsubscribe_token u))) (\<lambda>ok.
         if ok then bind (log_sent_jobs store_services (user_id u) (build_digest s u)) (\<lambda>_. ret SentJobs)
         else ret SendFailed)
       else
         bind (send_email cfg store_services (email u) (NoJobsMail (unsubscribe_token u))) (\<lambda>ok.
         if ok then ret SentNoJobs else ret SendFailed))"
  obtain r tr s' where d: "?D s = (r, tr, s')" by (cases "?D s")
  from deliver_posts [OF key d] obtain a where
    "mails tr = [(email u, if build_digest s u \<noteq> [] then JobsMail (build_digest s u) (unsubscribe_token u)
                            else NoJobsMail (unsubscribe_token u), a)]" by blast
  with d show ?thesis
    unfolding store_process_user [OF prefs] by (simp add: mails_append del: append.simps)
qed






lemma alice_digest:
  "build_digest example_store alice = [stored_job ''J3'' ''Data Engineer'' 30]"
  by (simp add: build_digest_def already_sent_def preferences_def fetch_recent_matching_jobs_def
      example_store_def alice_def stored_job_def)

lemma alice_preferences: "preferences example_store alice = [''Data Engineer'']"
  by (simp add: preferences_def example_store_def alice_def)

lemma configured_key: "\<not> unset (RESEND_API_KEY configured)"
  by (simp add: configured_def unset_def)


lemma store_send_refused:
  assumes key: "\<not> unset (RESEND_API_KEY cfg)" and a: "mail_answers s = a # rest" "a \<noteq> Inr 200"
  shows "\<exists>r. bind (send_email cfg store_services to html) (\<lambda>ok.
         if ok then bind (log_sent_jobs store_services uid found) (\<lambda>_. ret SentJobs)
         else ret SendFailed) s = (r, [SendEmail to html a], s\<lparr>mail_answers := rest\<rparr>)"
proof (cases a)
  case (Inl e)
  with key a(1) show ?thesis
    by (simp add: send_email_def bind_assoc bind_request store_services_def)
next
  case (Inr c)
  with key a show ?thesis
    by (simp add: send_email_def bind_assoc bind_request store_services_def ret_apply)
qed

lemma store_after_refusal:
  "preferences (s\<lparr>mail_answers := rest\<rparr>) u = preferences s u"
  "build_digest (s\<lparr>mail_answers := rest\<rparr>) u = build_digest s u"
  "email_logs_table (s\<lparr>mail_answers := rest\<rparr>) = email_logs_table s"
  by (simp_all add: preferences_def build_digest_def already_sent_def)

lemma store_retry:
  assumes key: "\<not> unset (RESEND_API_KEY cfg)" and prefs: "preferences s u \<noteq> []"
    and new: "build_digest s u \<noteq> []" and a: "mail_answers s = a # rest" "a \<noteq> Inr 200"
  shows "\<exists>r1 tr1 r2 tr2 s2 a2.
       process_user cfg store_services u s = (r1, tr1, s\<lparr>mail_answers := rest\<rparr>)
     \<and> mails tr1 = [(email u, JobsMail (build_digest s u) (unsubscribe_token u), a)]
     \<and> log_writes tr1 = []
     \<and> email_logs_table (s\<lparr>mail_answers := rest\<rparr>) = email_logs_table s
     \<and> process_user cfg store_services u (s\<lparr>mail_answers := rest\<rparr>) = (r2, tr2, s2)
     \<and> mails tr2 = [(email u, JobsMail (build_digest s u) (unsubscribe_token u), a2)]"
proof -
  from store_send_refused [OF key a] obtain r1 where
    "bind (send_email cfg store_services (email u) (JobsMail (build_digest s u) (unsubscribe_token u))) (\<lambda>ok.
         if ok then bind (log_sent_jobs store_services (user_id u) (build_digest s u)) (\<lambda>_. ret SentJobs)
         else ret SendFailed) s =
       (r1, [SendEmail (email u) (JobsMail (build_digest s u) (unsubscribe_token u)) a], s\<lparr>mail_answers := rest\<rparr>)"
    by blast
  with new have first: "process_user cfg store_services u s =
      (r1, [GetTitles (user_id u) (Inr (preferences s u)),
             GetSent (user_id u) (Inr (already_sent s u)),
             GetJobs (preferences s u) 20 (Inr (fetch_recent_matching_jobs (preferences s u) 20 (jobs_table s)))]
           @ [SendEmail (email u) (JobsMail (build_digest s u) (unsubscribe_token u)) a],
       s\<lparr>mail_answers := rest\<rparr>)"
    by (simp add: store_process_user [OF prefs])
  from prefs have "preferences (s\<lparr>mail_answers := rest\<rparr>) u \<noteq> []"
    by (simp add: store_after_refusal)
  from store_mail [OF key this] new obtain r2 tr2 s2 a2 where
    "process_user cfg store_services u (s\<lparr>mail_answers := rest\<rparr>) = (r2, tr2, s2)"
    "mails tr2 = [(email u, JobsMail (build_digest s u) (unsubscribe_token u), a2)]"
    by (auto simp: store_after_refusal)
  with first show ?thesis
    by (simp add: store_after_refusal)
qed

lemma receipts_generic:
  assumes run: "process_user cfg sv u w = (r, tr, w')"
  shows "(log_writes tr = [] \<or> (\<exists>found. found \<noteq> []
            \<and> mails tr = [(email u, JobsMail found (unsubscribe_token u), Inr 200)]
            \<and> prefix (log_writes tr) (map (\<lambda>j. (user_id u, job_id j)) found)))
     \<and> (r = Inr SentJobs \<longrightarrow> (\<exists>found. found \<noteq> []
            \<and> mails tr = [(email u, JobsMail found (unsubscribe_token u), Inr 200)]
            \<and> log_writes tr = map (\<lambda>j. (user_id u, job_id j)) found))
     \<and> (\<forall>to html a. (to, html, a) \<in> set (mails tr) \<and> a \<noteq> Inr 200 \<longrightarrow>
            log_writes tr = [] \<and> r \<noteq> Inr SentJobs)
     \<and> ((\<forall>w uid jid. \<exists>w'. post_log sv w uid jid = (Inr (), w')) \<longrightarrow>
          (\<forall>to found tok. (to, JobsMail found tok, Inr 200) \<in> set (mails tr) \<longrightarrow>
             r = Inr SentJobs \<and> log_writes tr = map (\<lambda>j. (user_id u, job_id j)) found))"
  using process_user_split [OF run]
proof (elim disjE exE conjE)
  assume "mails tr = []" "log_writes tr = []" "\<forall>x. r = Inr x \<longrightarrow> x = NoTitles"
  then show ?thesis by auto
next
  fix titles sent all w3 post
  let ?new = "new_jobs_of all sent"
  assume tr: "tr = [GetTitles (user_id u) (Inr titles), GetSent (user_id u) (Inr sent),
                  GetJobs titles 20 (Inr all)] @ post"
    and d: "(if ?new \<noteq> [] then
               bind (send_email cfg sv (email u) (JobsMail ?new (unsubscribe_token u))) (\<lambda>ok.
               if ok then bind (log_sent_jobs sv (user_id u) ?new) (\<lambda>_. ret SentJobs)
               else ret SendFailed)
             else
               bind (send_email cfg sv (email u) (NoJobsMail (unsubscribe_token u))) (\<lambda>ok.
               if ok then ret SentNoJobs else ret SendFailed)) w3 = (r, post, w')"
  from tr have m: "mails tr = mails post" and l: "log_writes tr = log_writes post" by simp_all
  note dt = deliver_trace [OF d]
  from dt have one: "mails post = [] \<or> (\<exists>a. mails post =
            [(email u, if ?new \<noteq> [] then JobsMail ?new (unsubscribe_token u)
                       else NoJobsMail (unsubscribe_token u), a)])" by blast
  from dt have logged: "log_writes post = [] \<or> (?new \<noteq> []
            \<and> mails post = [(email u, JobsMail ?new (unsubscribe_token u), Inr 200)])" by blast
  from dt have pre: "prefix (log_writes post) (map (\<lambda>j. (user_id u, job_id j)) ?new)" by blast
  from dt have ok: "r = Inr SentJobs \<longrightarrow> ?new \<noteq> []
            \<and> mails post = [(email u, JobsMail ?new (unsubscribe_token u), Inr 200)]
            \<and> log_writes post = map (\<lambda>j. (user_id u, job_id j)) ?new" by blast
  have 1: "log_writes tr = [] \<or> (\<exists>found. found \<noteq> []
            \<and> mails tr = [(email u, JobsMail found (unsubscribe_token u), Inr 200)]
            \<and> prefix (log_writes tr) (map (\<lambda>j. (user_id u, job_id j)) found))"
    using logged pre unfolding m l by blast
  have 2: "r = Inr SentJobs \<longrightarrow> (\<exists>found. found \<noteq> []
            \<and> mails tr = [(email u, JobsMail found (unsubscribe_token u), Inr 200)]
            \<and> log_writes tr = map (\<lambda>j. (user_id u, job_id j)) found)"
    using ok unfolding m l by blast
  have 3: "\<forall>to html a. (to, html, a) \<in> set (mails tr) \<and> a \<noteq> Inr 200 \<longrightarrow>
            log_writes tr = [] \<and> r \<noteq> Inr SentJobs"
    using logged ok unfolding m l by auto
  have 4: "r = Inr SentJobs \<and> log_writes tr = map (\<lambda>j. (user_id u, job_id j)) found"
    if posts: "\<forall>w uid jid. \<exists>w'. post_log sv w uid jid = (Inr (), w')"
      and sent: "(to, JobsMail found tok, Inr 200) \<in> set (mails tr)" for to found tok
  proof -
    from sent one have new: "?new \<noteq> []" and found: "found = ?new"
      unfolding m by (auto split: if_splits)
    from d new have "bind (send_email cfg sv (email u) (JobsMail ?new (unsubscribe_token u))) (\<lambda>ok.
               if ok then bind (log_sent_jobs sv (user_id u) ?new) (\<lambda>_. ret SentJobs)
               else ret SendFailed) w3 = (r, post, w')" by simp
    from deliver_answered [OF posts this] sent have "r = Inr SentJobs"
      unfolding m by blast
    with ok found show ?thesis unfolding l by simp
  qed
  from 1 2 3 4 show ?thesis by blast
qed

text \<open>
  C3. For a subscriber, a log row is posted only after the mail with their new jobs was
  answered 200, and the rows posted are rows of the jobs of that mail, in order; when
  the subscriber's run ends as sent, there is exactly one row per job of the mail; when
  the send is answered otherwise or raises, no row is posted; and when the store answers
  the log requests, a send answered 200 is followed by one row per job. On the store as
  the specification describes it, after a refused send the email log is unchanged and
  the next run mails the same jobs again.
\<close>

theorem receipts_only_after_successful_send:
  assumes run: "process_user cfg sv u w = (r, tr, w')"
  shows "(log_writes tr = [] \<or> (\<exists>found. found \<noteq> []
            \<and> mails tr = [(email u, JobsMail found (unsubscribe_token u), Inr 200)]
            \<and> prefix (log_writes tr) (map (\<lambda>j. (user_id u, job_id j)) found)))
     \<and> (r = Inr SentJobs \<longrightarrow> (\<exists>found. found \<noteq> []
            \<and> mails tr = [(email u, JobsMail found (unsubscribe_token u), Inr 200)]
            \<and> log_writes tr = map (\<lambda>j. (user_id u, job_id j)) found))
     \<and> (\<forall>to html a. (to, html, a) \<in> set (mails tr) \<and> a \<noteq> Inr 200 \<longrightarrow>
            log_writes tr = [] \<and> r \<noteq> Inr SentJobs)
     \<and> ((\<forall>w uid jid. \<exists>w'. post_log sv w uid jid = (Inr (), w')) \<longrightarrow>
          (\<forall>to found tok. (to, JobsMail found tok, Inr 200) \<in> set (mails tr) \<longrightarrow>
             r = Inr SentJobs \<and> log_writes tr = map (\<lambda>j. (user_id u, job_id j)) found))
     \<and> (\<forall>s a rest. \<not> unset (RESEND_API_KEY cfg) \<and> preferences s u \<noteq> [] \<and> build_digest s u \<noteq> []
            \<and> mail_answers s = a # rest \<and> a \<noteq> Inr 200 \<longrightarrow>
          (\<exists>r1 tr1 r2 tr2 s2 a2.
             process_user cfg store_services u s = (r1, tr1, s\<lparr>mail_answers := rest\<rparr>)
           \<and> mails tr1 = [(email u, JobsMail (build_digest s u) (unsubscribe_token u), a)]
           \<and> log_writes tr1 = []
           \<and> email_logs_table (s\<lparr>mail_answers := rest\<rparr>) = email_logs_table s
           \<and> process_user cfg store_services u (s\<lparr>mail_answers := rest\<rparr>) = (r2, tr2, s2)
           \<and> mails tr2 = [(email u, JobsMail (build_digest s u) (unsubscribe_token u), a2)]))"
proof -
  have retry: "\<forall>s a rest. \<not> unset (RESEND_API_KEY cfg) \<and> preferences s u \<noteq> [] \<and> build_digest s u \<noteq> []
            \<and> mail_answers s = a # rest \<and> a \<noteq> Inr 200 \<longrightarrow>
          (\<exists>r1 tr1 r2 tr2 s2 a2.
             process_user cfg store_services u s = (r1, tr1, s\<lparr>mail_answers := rest\<rparr>)
           \<and> mails tr1 = [(email u, JobsMail (build_digest s u) (unsubscribe_token u), a)]
           \<and> log_writes tr1 = []
           \<and> email_logs_table (s\<lparr>mail_answers := rest\<rparr>) = email_logs_table s
           \<and> process_user cfg store_services u (s\<lparr>mail_answers := rest\<rparr>) = (r2, tr2, s2)
           \<and> mails tr2 = [(email u, JobsMail (build_digest s u) (unsubscribe_token u), a2)])"
    by (intro allI impI, elim conjE) (rule store_retry)
  from receipts_generic [OF run] retry show ?thesis
    by (intro conjI) (elim conjE, assumption)+
qed

lemma alice_first_run:
  "process_user configured store_services alice example_store =
     (Inr SendFailed,
      [GetTitles ''u1'' (Inr [''Data Engineer'']),
       GetSent ''u1'' (Inr [''J1'', ''J2'']),
       GetJobs [''Data Engineer''] 20 (Inr [stored_job ''J3'' ''Data Engineer'' 30,
          stored_job ''J2'' ''Data Engineer'' 20, stored_job ''J1'' ''Data Engineer'' 10]),
       SendEmail ''alice@example.org'' (JobsMail [stored_job ''J3'' ''Data Engineer'' 30] ''t1'') (Inr 500)],
      example_store\<lparr>mail_answers := []\<rparr>)"
  by (simp add: store_process_user alice_preferences alice_digest send_email_def configured_key
      bind_assoc bind_request ret_apply)
     (simp add: store_services_def example_store_def alice_def already_sent_def
      fetch_recent_matching_jobs_def stored_job_def ret_apply)

lemma alice_second_run:
  "process_user configured store_services alice (example_store\<lparr>mail_answers := []\<rparr>) =
     (Inr SentJobs,
      [GetTitles ''u1'' (Inr [''Data Engineer'']),
       GetSent ''u1'' (Inr [''J1'', ''J2'']),
       GetJobs [''Data Engineer''] 20 (Inr [stored_job ''J3'' ''Data Engineer'' 30,
          stored_job ''J2'' ''Data Engineer'' 20, stored_job ''J1'' ''Data Engineer'' 10]),
       SendEmail ''alice@example.org'' (JobsMail [stored_job ''J3'' ''Data Engineer'' 30] ''t1'') (Inr 200),
       LogWrite ''u1'' ''J3'' (Inr ())],
      example_store\<lparr>mail_answers := [], email_logs_table := [(''u1'', ''J1''), (''u1'', ''J2''), (''u1'', ''J3'')]\<rparr>)"
  by (simp add: store_process_user store_after_refusal alice_preferences alice_digest send_email_def
      configured_key bind_assoc bind_request ret_apply cong: if_cong)
     (simp add: store_services_def example_store_def alice_def already_sent_def
      fetch_recent_matching_jobs_def stored_job_def ret_apply bind_request)

theorem receipts_only_after_successful_send_witness:
  "fst (process_user configured store_services alice example_store) = Inr SendFailed
   \<and> mails (fst (snd (process_user configured store_services alice example_store))) =
        [(''alice@example.org'', JobsMail [stored_job ''J3'' ''Data Engineer'' 30] ''t1'', Inr 500)]
   \<and> log_writes (fst (snd (process_user configured store_services alice example_store))) = []
   \<and> fst (process_user configured store_services alice (example_store\<lparr>mail_answers := []\<rparr>)) = Inr SentJobs
   \<and> mails (fst (snd (process_user configured store_services alice (example_store\<lparr>mail_answers := []\<rparr>)))) =
        [(''alice@example.org'', JobsMail [stored_job ''J3'' ''Data Engineer'' 30] ''t1'', Inr 200)]
   \<and> log_writes (fst (snd (process_user configured store_services alice (example_store\<lparr>mail_answers := []\<rparr>)))) =
        [(''u1'', ''J3'')]"
proof -
  note first = receipts_only_after_successful_send [OF alice_first_run]
  note second = receipts_only_after_successful_send [OF alice_second_run]
  from first have "log_writes [GetTitles ''u1'' (Inr [''Data Engineer'']),
       GetSent ''u1'' (Inr [''J1'', ''J2'']),
       GetJobs [''Data Engineer''] 20 (Inr [stored_job ''J3'' ''Data Engineer'' 30,
          stored_job ''J2'' ''Data Engineer'' 20, stored_job ''J1'' ''Data Engineer'' 10]),
       SendEmail ''alice@example.org'' (JobsMail [stored_job ''J3'' ''Data Engineer'' 30] ''t1'') (Inr 500)] = []"
    by simp
  moreover from second have "log_writes [GetTitles ''u1'' (Inr [''Data Engineer'']),
       GetSent ''u1'' (Inr [''J1'', ''J2'']),
       GetJobs [''Data Engineer''] 20 (Inr [stored_job ''J3'' ''Data Engineer'' 30,
          stored_job ''J2'' ''Data Engineer'' 20, stored_job ''J1'' ''Data Engineer'' 10]),
       SendEmail ''alice@example.org'' (JobsMail [stored_job ''J3'' ''Data Engineer'' 30] ''t1'') (Inr 200),
       LogWrite ''u1'' ''J3'' (Inr ())] = [(''u1'', ''J3'')]"
    by simp
  ultimately show ?thesis
    by (simp add: alice_first_run alice_second_run)
qed

section \<open>The exit of the digest script\<close>

lemma never_exitsD: "never_exits m \<Longrightarrow> m w = (Inl (SystemExit n), tr, w') \<Longrightarrow> False"
  unfolding never_exits_def by blast

lemma never_exits_ret [simp]: "never_exits (ret x)"
  by (simp add: never_exits_def ret_def)

lemma never_exits_raise [simp]: "never_exits (raise e)"
  by (simp add: never_exits_def raise_def)

lemma never_exits_request [simp]: "never_exits (request op ev)"
  by (auto simp: never_exits_def elim!: requestE)

lemma never_exits_bind:
  assumes "never_exits m" and "\<And>x. never_exits (f x)"
  shows "never_exits (bind m f)"
  unfolding never_exits_def
proof (intro allI impI notI)
  fix w r tr w' n
  assume "bind m f w = (r, tr, w')" and r: "r = Inl (SystemExit n)"
  then show False
  proof (cases rule: bindE)
    case (raises e)
    with r assms(1) show ?thesis by (auto dest: never_exitsD)
  next
    case (returns x tr1 w1 tr2)
    with r assms(2) [of x] show ?thesis by (auto dest: never_exitsD)
  qed
qed

lemma never_exits_log_sent_jobs: "never_exits (log_sent_jobs sv uid found)"
  by (induction found) (simp_all add: never_exits_bind)

lemma never_exits_send_email: "never_exits (send_email cfg sv to html)"
  by (simp add: send_email_def never_exits_bind)

lemma never_exits_process_user: "never_exits (process_user cfg sv u)"
  unfolding process_user_def Let_def
  by (intro never_exits_bind never_exits_request)
     (auto intro!: never_exits_bind never_exits_send_email never_exits_log_sent_jobs)

lemma process_user_begun:
  assumes "process_user cfg sv u w = (r, tr, w')"
  shows "users_begun tr = [user_id u]"
  using process_user_split [OF assms]
proof (elim disjE exE conjE)
  fix titles sent all w3 post
  assume tr: "tr = [GetTitles (user_id u) (Inr titles), GetSent (user_id u) (Inr sent),
                  GetJobs titles 20 (Inr all)] @ post"
    and d: "(if new_jobs_of all sent \<noteq> [] then
               bind (send_email cfg sv (email u) (JobsMail (new_jobs_of all sent) (unsubscribe_token u))) (\<lambda>ok.
               if ok then bind (log_sent_jobs sv (user_id u) (new_jobs_of all sent)) (\<lambda>_. ret SentJobs)
               else ret SendFailed)
             else
               bind (send_email cfg sv (email u) (NoJobsMail (unsubscribe_token u))) (\<lambda>ok.
               if ok then ret SentNoJobs else ret SendFailed)) w3 = (r, post, w')"
  from deliver_trace [OF d] have "users_begun post = []" by blast
  with tr show ?thesis by simp
qed

lemma guarded_user:
  assumes "try_except (process_user cfg sv u) (\<lambda>e. ret (Raised e)) w = (r, tr, w')"
  shows "\<exists>x. r = Inr x \<and> users_begun tr = [user_id u]"
  using assms
proof (cases rule: try_exceptE)
  case (ok x)
  with process_user_begun [OF ok(1)] show ?thesis by simp
next
  case (passed n)
  from never_exitsD [OF never_exits_process_user passed(1)] show ?thesis ..
next
  case (handled e tr1 w1 tr2)
  with process_user_begun [OF handled(1)] show ?thesis by (auto simp: ret_def users_begun_append)
qed

lemma tally_counts:
  "emails_sent (tally u x s) + no_jobs_emails (tally u x s) + int (length (errors (tally u x s)))
     \<le> emails_sent s + no_jobs_emails s + int (length (errors s)) + 1"
  by (cases x) simp_all

lemma tally_errors:
  "\<exists>new. errors (tally u x s) = errors s @ new \<and> subseq (map fst new) [email u]"
  by (cases x) simp_all

lemma process_users_total:
  "\<exists>s tr w' new. process_users cfg sv us s0 w = (Inr s, tr, w')
     \<and> users_begun tr = map user_id us
     \<and> emails_sent s + no_jobs_emails s + int (length (errors s))
          \<le> emails_sent s0 + no_jobs_emails s0 + int (length (errors s0)) + int (length us)
     \<and> errors s = errors s0 @ new \<and> subseq (map fst new) (map email us)"
proof (induction us arbitrary: s0 w)
  case Nil
  show ?case by (simp add: ret_def)
next
  case (Cons u us)
  obtain r tr1 w1 where g: "try_except (process_user cfg sv u) (\<lambda>e. ret (Raised e)) w = (r, tr1, w1)"
    by (cases "try_except (process_user cfg sv u) (\<lambda>e. ret (Raised e)) w")
  from guarded_user [OF g] obtain x where x: "r = Inr x" and b: "users_begun tr1 = [user_id u]"
    by blast
  from Cons [of "tally u x s0" w1] obtain s tr2 w' new where
    rest: "process_users cfg sv us (tally u x s0) w1 = (Inr s, tr2, w')"
      "users_begun tr2 = map user_id us"
      "emails_sent s + no_jobs_emails s + int (length (errors s))
          \<le> emails_sent (tally u x s0) + no_jobs_emails (tally u x s0)
             + int (length (errors (tally u x s0))) + int (length us)"
      "errors s = errors (tally u x s0) @ new" "subseq (map fst new) (map email us)"
    by blast
  from tally_errors [of u x s0] obtain new0 where
    new0: "errors (tally u x s0) = errors s0 @ new0" "subseq (map fst new0) [email u]"
    by blast
  have run: "process_users cfg sv (u # us) s0 w = (Inr s, tr1 @ tr2, w')"
    using g x rest(1) by (simp add: bind_def)
  have count: "emails_sent s + no_jobs_emails s + int (length (errors s))
          \<le> emails_sent s0 + no_jobs_emails s0 + int (length (errors s0)) + int (length (u # us))"
    using rest(3) tally_counts [of u x s0] by simp
  have errs: "errors s = errors s0 @ (new0 @ new)"
    using rest(4) new0(1) by simp
  have "subseq (map fst new0 @ map fst new) ([email u] @ map email us)"
    using new0(2) rest(5) by (rule list_emb_append_mono)
  then have sub: "subseq (map fst (new0 @ new)) (map email (u # us))"
    by simp
  from run b rest(2) count errs sub show ?case
    by (intro exI [of _ s] exI [of _ "tr1 @ tr2"] exI [of _ w'] exI [of _ "new0 @ new"])
       (simp add: users_begun_append)
qed

lemma exception_recorded:
  assumes "process_user cfg sv u w0 = (Inl (Exception e), tr1, w2)"
  shows "process_users cfg sv (u # us) s0 w0 =
     (case process_users cfg sv us (s0\<lparr>errors := errors s0 @ [(email u, Error e)]\<rparr>) w2 of
        (r, tr2, w3) \<Rightarrow> (r, tr1 @ tr2, w3))"
proof -
  from assms have "try_except (process_user cfg sv u) (\<lambda>e. ret (Raised e)) w0 = (Inr (Raised e), tr1, w2)"
    by (simp add: try_except_apply ret_apply)
  note step = bind_returns [of "try_except (process_user cfg sv u) (\<lambda>e. ret (Raised e))" w0, OF this]
  show ?thesis by (simp add: step)
qed

text \<open>
  C10, as amended. The digest script exits with code 1 when the store is not configured,
  and with an uncaught exception when the query of the subscribers raises. Otherwise it
  returns normally (exit code 0) with its counts and its error list: every subscriber is
  processed, in order, whatever exceptions the others raised; an exception raised while
  processing a subscriber is caught and recorded under the subscriber's email address and
  the loop goes on with the next subscriber; each subscriber adds at most one to the
  counts and the errors together.
\<close>

theorem digest_run_isolates_subscriber_failures:
  "(unset (SUPABASE_URL cfg) \<or> unset (SUPABASE_KEY cfg) \<longrightarrow>
      digest_main cfg sv w = (Inl (SystemExit 1), [], w))
   \<and> (\<not> unset (SUPABASE_URL cfg) \<and> \<not> unset (SUPABASE_KEY cfg) \<longrightarrow>
        (\<forall>e w1. get_users sv w = (Inl e, w1) \<longrightarrow>
           digest_main cfg sv w = (Inl (Exception e), [GetUsers (Inl e)], w1))
      \<and> (\<forall>users w1. get_users sv w = (Inr users, w1) \<longrightarrow>
           (\<exists>s tr w'. digest_main cfg sv w = (Inr s, tr, w')
              \<and> exit_code (fst (digest_main cfg sv w)) = 0
              \<and> users_begun tr = map user_id users
              \<and> emails_sent s + no_jobs_emails s + int (length (errors s)) \<le> int (length users)
              \<and> subseq (map fst (errors s)) (map email users))))
   \<and> (\<forall>u us s0 w0 e tr1 w2. process_user cfg sv u w0 = (Inl (Exception e), tr1, w2) \<longrightarrow>
         process_users cfg sv (u # us) s0 w0 =
           (case process_users cfg sv us (s0\<lparr>errors := errors s0 @ [(email u, Error e)]\<rparr>) w2 of
              (r, tr2, w3) \<Rightarrow> (r, tr1 @ tr2, w3)))"
proof (intro conjI impI allI)
  assume "unset (SUPABASE_URL cfg) \<or> unset (SUPABASE_KEY cfg)"
  then show "digest_main cfg sv w = (Inl (SystemExit 1), [], w)"
    by (auto simp: digest_main_def sys_exit_def)
next
  fix e w1
  assume "\<not> unset (SUPABASE_URL cfg) \<and> \<not> unset (SUPABASE_KEY cfg)" "get_users sv w = (Inl e, w1)"
  then show "digest_main cfg sv w = (Inl (Exception e), [GetUsers (Inl e)], w1)"
    by (simp add: digest_main_def bind_request)
next
  fix users w1
  assume cfg: "\<not> unset (SUPABASE_URL cfg) \<and> \<not> unset (SUPABASE_KEY cfg)"
    and users: "get_users sv w = (Inr users, w1)"
  let ?s0 = "\<lparr>emails_sent = 0, no_jobs_emails = 0, errors = []\<rparr>"
  from process_users_total [of cfg sv users ?s0 w1] obtain s tr w' new where
    run: "process_users cfg sv users ?s0 w1 = (Inr s, tr, w')"
    and begun: "users_begun tr = map user_id users"
    and count: "emails_sent s + no_jobs_emails s + int (length (errors s))
          \<le> emails_sent ?s0 + no_jobs_emails ?s0 + int (length (errors ?s0)) + int (length users)"
    and errs: "errors s = errors ?s0 @ new" "subseq (map fst new) (map email users)"
    by blast
  have main: "digest_main cfg sv w = (Inr s, GetUsers (Inr users) # tr, w')"
    using cfg users run by (simp add: digest_main_def bind_request)
  with begun count errs
  show "\<exists>s tr w'. digest_main cfg sv w = (Inr s, tr, w')
              \<and> exit_code (fst (digest_main cfg sv w)) = 0
              \<and> users_begun tr = map user_id users
              \<and> emails_sent s + no_jobs_emails s + int (length (errors s)) \<le> int (length users)
              \<and> subseq (map fst (errors s)) (map email users)"
    by (intro exI [of _ s] exI [of _ "GetUsers (Inr users) # tr"] exI [of _ w']) simp
next
  fix u us s0 w0 e tr1 w2
  assume "process_user cfg sv u w0 = (Inl (Exception e), tr1, w2)"
  then show "process_users cfg sv (u # us) s0 w0 =
           (case process_users cfg sv us (s0\<lparr>errors := errors s0 @ [(email u, Error e)]\<rparr>) w2 of
              (r, tr2, w3) \<Rightarrow> (r, tr1 @ tr2, w3))"
    by (rule exception_recorded)
qed

lemma moody_run:
  "digest_main configured moody_services () =
     (Inr \<lparr>emails_sent = 1, no_jobs_emails = 0, errors = [(''bob@example.org'', Error RequestError)]\<rparr>,
      [GetUsers (Inr [bob, alice]),
       GetTitles ''u2'' (Inl RequestError),
       GetTitles ''u1'' (Inr [''Data Engineer'']),
       GetSent ''u1'' (Inr []),
       GetJobs [''Data Engineer''] 20 (Inr [stored_job ''J3'' ''Data Engineer'' 30]),
       SendEmail ''alice@example.org'' (JobsMail [stored_job ''J3'' ''Data Engineer'' 30] ''t1'') (Inr 200),
       LogWrite ''u1'' ''J3'' (Inr ())],
      ())"
  by (simp add: digest_main_def configured_def unset_def moody_services_def process_user_def
      send_email_def new_jobs_of_def alice_def bob_def stored_job_def
      bind_def request_def ret_def raise_def try_except_def Let_def)

theorem digest_run_isolates_subscriber_failures_witness:
  "\<not> unset (SUPABASE_URL configured) \<and> \<not> unset (SUPABASE_KEY configured)
   \<and> get_users moody_services () = (Inr [bob, alice], ())
   \<and> fst (digest_main configured moody_services ()) =
        Inr \<lparr>emails_sent = 1, no_jobs_emails = 0, errors = [(''bob@example.org'', Error RequestError)]\<rparr>
   \<and> exit_code (fst (digest_main configured moody_services ())) = 0
   \<and> users_begun (fst (snd (digest_main configured moody_services ()))) = map user_id [bob, alice]"
proof -
  have c: "\<not> unset (SUPABASE_URL configured) \<and> \<not> unset (SUPABASE_KEY configured)"
    by (simp add: configured_def unset_def)
  have u: "get_users moody_services () = (Inr [bob, alice], ())"
    by (simp add: moody_services_def)
  from digest_run_isolates_subscriber_failures [of configured moody_services "()"] c u
  have "\<exists>s tr w'. digest_main configured moody_services () = (Inr s, tr, w')
              \<and> exit_code (fst (digest_main configured moody_services ())) = 0
              \<and> users_begun tr = map user_id [bob, alice]
              \<and> emails_sent s + no_jobs_emails s + int (length (errors s)) \<le> int (length [bob, alice])
              \<and> subseq (map fst (errors s)) (map email [bob, alice])"
    by blast
  then have "exit_code (fst (digest_main configured moody_services ())) = 0
      \<and> users_begun (fst (snd (digest_main configured moody_services ()))) = map user_id [bob, alice]"
    by auto
  with c u moody_run show ?thesis by simp
qed

text \<open>C10, as stated, fails: without the store's configuration the script exits with code 1.\<close>

theorem digest_exits_1_when_unconfigured:
  "exit_code (fst (digest_main unconfigured moody_services ())) = 1"
  by (simp add: digest_main_def unconfigured_def unset_def sys_exit_def)

end
